theory Spec2Isabelle
  imports Main
begin

section \<open>Python values and errors\<close>

text \<open>
  The script \<^verbatim>\<open>scripts/generate_chart.py\<close> builds a list of dictionaries, draws it with
  matplotlib and dumps it as JSON. Its values are dynamically typed, so the records are
  modelled as Python values: a dictionary is an association list in insertion order
  (the order \<^verbatim>\<open>json.dump\<close> writes the keys in), with string keys.
\<close>

datatype pyval =
    PNone
  | PBool bool
  | PInt int
  | PStr string
  | PList "pyval list"
  | PDict "(string \<times> pyval) list"

datatype py_error =
    KeyError string
  | TypeError
  | ValueError
  | OverflowError
  | FileExistsError
  | FileNotFoundError
  | NotADirectoryError
  | IsADirectoryError
  | PermissionError

text \<open>\<^verbatim>\<open>record[key]\<close> with a string key: the value stored under the key,
  \<^verbatim>\<open>KeyError\<close> when the dictionary has no such key, \<^verbatim>\<open>TypeError\<close> when the value
  is not a dictionary (a list, a string, a number and \<^verbatim>\<open>None\<close> cannot be indexed by a
  string).\<close>

fun getitem :: "pyval \<Rightarrow> string \<Rightarrow> py_error + pyval" where
  "getitem (PDict kvs) k = (case map_of kvs k of None \<Rightarrow> Inl (KeyError k) | Some v \<Rightarrow> Inr v)"
| "getitem _ k = Inl TypeError"

section \<open>The datetime library, as far as the script uses it\<close>

record datetime =
  year :: int
  month :: int
  day :: int
  hour :: int
  minute :: int
  second :: int
  microsecond :: int

definition mk_datetime :: "int \<Rightarrow> int \<Rightarrow> int \<Rightarrow> datetime" where
  "mk_datetime y m d =
     \<lparr>year = y, month = m, day = d, hour = 0, minute = 0, second = 0, microsecond = 0\<rparr>"

definition is_leap :: "int \<Rightarrow> bool" where
  "is_leap y \<longleftrightarrow> y mod 4 = 0 \<and> (y mod 100 \<noteq> 0 \<or> y mod 400 = 0)"

definition days_before_year :: "int \<Rightarrow> int" where
  "days_before_year y = (let z = y - 1 in z * 365 + z div 4 - z div 100 + z div 400)"

definition DAYS_IN_MONTH :: "int list" where
  "DAYS_IN_MONTH = [-1, 31, 28, 31, 30, 31, 30, 31, 31, 30, 31, 30, 31]"

definition DAYS_BEFORE_MONTH :: "int list" where
  "DAYS_BEFORE_MONTH = [-1, 0, 31, 59, 90, 120, 151, 181, 212, 243, 273, 304, 334]"

definition days_before_month :: "int \<Rightarrow> int \<Rightarrow> int" where
  "days_before_month y m =
     DAYS_BEFORE_MONTH ! nat m + (if m > 2 \<and> is_leap y then 1 else 0)"

definition ymd2ord :: "int \<Rightarrow> int \<Rightarrow> int \<Rightarrow> int" where
  "ymd2ord y m d = days_before_year y + days_before_month y m + d"

definition toordinal :: "datetime \<Rightarrow> int" where
  "toordinal dt = ymd2ord (year dt) (month dt) (day dt)"

text \<open>\<^verbatim>\<open>_ord2ymd\<close>: the proleptic Gregorian date of an ordinal (1 is 0001-01-01),
  by 400-, 100-, 4- and 1-year cycles, then an estimate of the month that is corrected
  downwards when it overshoots.\<close>

definition ord2ymd :: "int \<Rightarrow> int \<times> int \<times> int" where
  "ord2ymd n0 =
     (let n = n0 - 1;
          n400 = n div 146097; n = n mod 146097;
          n100 = n div 36524; n = n mod 36524;
          n4 = n div 1461; n = n mod 1461;
          n1 = n div 365; n = n mod 365;
          y = n400 * 400 + 1 + n100 * 100 + n4 * 4 + n1
      in if n1 = 4 \<or> n100 = 4 then (y - 1, 12, 31)
         else
           let leapyear = (n1 = 3 \<and> (n4 \<noteq> 24 \<or> n100 = 3));
               m = (n + 50) div 32;
               preceding = DAYS_BEFORE_MONTH ! nat m + (if m > 2 \<and> leapyear then 1 else 0)
           in if preceding > n
              then let m' = m - 1;
                       preceding' = preceding
                         - (DAYS_IN_MONTH ! nat m' + (if m' = 2 \<and> leapyear then 1 else 0))
                   in (y, m', n - preceding' + 1)
              else (y, m, n - preceding + 1))"

definition MAXORDINAL :: int where
  "MAXORDINAL = 3652059"

text \<open>\<^verbatim>\<open>start_date + timedelta(weeks=week)\<close>: a timedelta of whole weeks is \<open>7 * week\<close>
  days and no seconds, so the time of day is kept and the date moves by ordinals.
  The library raises \<^verbatim>\<open>OverflowError\<close> when the result leaves years 1 to 9999.\<close>

definition add_weeks :: "datetime \<Rightarrow> int \<Rightarrow> py_error + datetime" where
  "add_weeks dt w =
     (let days = toordinal dt + 7 * w
      in if 0 < days \<and> days \<le> MAXORDINAL
         then (case ord2ymd days of (y, m, d) \<Rightarrow> Inr (dt\<lparr>year := y, month := m, day := d\<rparr>))
         else Inl OverflowError)"

text \<open>Decimal digits of a natural number, and zero padding to a width
  (\<^verbatim>\<open>%04d\<close>, \<^verbatim>\<open>%02d\<close>).\<close>

definition digit_char :: "nat \<Rightarrow> char" where
  "digit_char d = ''0123456789'' ! d"

fun dec :: "nat \<Rightarrow> string" where
  "dec n = (if n < 10 then [digit_char n] else dec (n div 10) @ [digit_char (n mod 10)])"

declare dec.simps [simp del]

definition zpad :: "nat \<Rightarrow> int \<Rightarrow> string" where
  "zpad width n = (let s = dec (nat n) in replicate (width - length s) CHR ''0'' @ s)"

text \<open>\<^verbatim>\<open>weekday()\<close> is 0 on Monday; C's \<^verbatim>\<open>tm_wday\<close> is 0 on Sunday and
  \<^verbatim>\<open>tm_yday\<close> counts from 0. \<^verbatim>\<open>%U\<close> is the week of the year with Sunday as the
  first day of the week: the days before the first Sunday are week 0.\<close>

definition weekday :: "datetime \<Rightarrow> int" where
  "weekday dt = (toordinal dt + 6) mod 7"

definition tm_wday :: "datetime \<Rightarrow> int" where
  "tm_wday dt = (weekday dt + 1) mod 7"

definition tm_yday :: "datetime \<Rightarrow> int" where
  "tm_yday dt = toordinal dt - ymd2ord (year dt) 1 1"

definition week_U :: "datetime \<Rightarrow> int" where
  "week_U dt = (tm_yday dt + 7 - tm_wday dt) div 7"

text \<open>\<^verbatim>\<open>strftime\<close> for the directives the script uses, \<^verbatim>\<open>%Y\<close> and \<^verbatim>\<open>%U\<close>
  (and \<^verbatim>\<open>%%\<close>); any other character is copied.\<close>

fun strftime :: "datetime \<Rightarrow> string \<Rightarrow> string" where
  "strftime dt [] = []"
| "strftime dt (c # d # cs) =
     (if c = CHR ''%'' \<and> d = CHR ''Y'' then zpad 4 (year dt) @ strftime dt cs
      else if c = CHR ''%'' \<and> d = CHR ''U'' then zpad 2 (week_U dt) @ strftime dt cs
      else if c = CHR ''%'' \<and> d = CHR ''%'' then CHR ''%'' # strftime dt cs
      else c # strftime dt (d # cs))"
| "strftime dt [c] = [c]"

text \<open>\<^verbatim>\<open>isoformat()\<close> of a naive datetime: \<^verbatim>\<open>YYYY-MM-DDTHH:MM:SS\<close>, with
  \<^verbatim>\<open>.ffffff\<close> only when the microseconds are not zero.\<close>

definition isoformat :: "datetime \<Rightarrow> string" where
  "isoformat dt =
     zpad 4 (year dt) @ ''-'' @ zpad 2 (month dt) @ ''-'' @ zpad 2 (day dt) @ ''T''
     @ zpad 2 (hour dt) @ '':'' @ zpad 2 (minute dt) @ '':'' @ zpad 2 (second dt)
     @ (if microsecond dt \<noteq> 0 then ''.'' @ zpad 6 (microsecond dt) else [])"

text \<open>\<^verbatim>\<open>datetime.fromisoformat\<close>, for the shapes \<^verbatim>\<open>isoformat\<close> writes for a naive
  datetime: \<^verbatim>\<open>YYYY-MM-DD\<close>, then optionally one separator character and
  \<^verbatim>\<open>HH:MM:SS\<close>, then optionally \<^verbatim>\<open>.ffffff\<close>. The fields are range-checked as the
  datetime constructor does. Time zone offsets and the further shapes newer Python versions
  accept are outside this model (they are \<^verbatim>\<open>ValueError\<close> here).\<close>

fun index_of :: "'a \<Rightarrow> 'a list \<Rightarrow> nat option" where
  "index_of x [] = None"
| "index_of x (y # ys) = (if x = y then Some 0 else map_option Suc (index_of x ys))"

definition digit_val :: "char \<Rightarrow> nat option" where
  "digit_val c = index_of c ''0123456789''"

fun parse_digits :: "nat \<Rightarrow> string \<Rightarrow> nat option" where
  "parse_digits acc [] = Some acc"
| "parse_digits acc (c # cs) =
     (case digit_val c of None \<Rightarrow> None | Some d \<Rightarrow> parse_digits (10 * acc + d) cs)"

definition parse_nat :: "string \<Rightarrow> nat option" where
  "parse_nat s = (if s = [] then None else parse_digits 0 s)"

definition days_in_month :: "int \<Rightarrow> int \<Rightarrow> int" where
  "days_in_month y m = (if m = 2 \<and> is_leap y then 29 else DAYS_IN_MONTH ! nat m)"

definition check_fields :: "datetime \<Rightarrow> py_error + datetime" where
  "check_fields dt =
     (if 1 \<le> year dt \<and> year dt \<le> 9999 \<and> 1 \<le> month dt \<and> month dt \<le> 12
         \<and> 1 \<le> day dt \<and> day dt \<le> days_in_month (year dt) (month dt)
         \<and> 0 \<le> hour dt \<and> hour dt \<le> 23 \<and> 0 \<le> minute dt \<and> minute dt \<le> 59
         \<and> 0 \<le> second dt \<and> second dt \<le> 59
         \<and> 0 \<le> microsecond dt \<and> microsecond dt \<le> 999999
      then Inr dt else Inl ValueError)"

definition parse_isoformat_time :: "string \<Rightarrow> (nat \<times> nat \<times> nat \<times> nat) option" where
  "parse_isoformat_time t =
     (if t = [] then Some (0, 0, 0, 0)
      else if (length t = 8 \<or> length t = 15) \<and> t ! 2 = CHR '':'' \<and> t ! 5 = CHR '':''
                \<and> (length t = 15 \<longrightarrow> t ! 8 = CHR ''.'')
      then (case (parse_nat (take 2 t), parse_nat (take 2 (drop 3 t)),
                  parse_nat (take 2 (drop 6 t)),
                  if length t = 15 then parse_nat (drop 9 t) else Some 0) of
              (Some h, Some mi, Some sec, Some us) \<Rightarrow> Some (h, mi, sec, us)
            | _ \<Rightarrow> None)
      else None)"

definition fromisoformat :: "string \<Rightarrow> py_error + datetime" where
  "fromisoformat s =
     (if length s < 10 \<or> s ! 4 \<noteq> CHR ''-'' \<or> s ! 7 \<noteq> CHR ''-''
      then Inl ValueError
      else (case (parse_nat (take 4 s), parse_nat (take 2 (drop 5 s)),
                  parse_nat (take 2 (drop 8 (take 10 s))), parse_isoformat_time (drop 11 s)) of
              (Some y, Some m, Some d, Some (h, mi, sec, us)) \<Rightarrow>
                check_fields \<lparr>year = int y, month = int m, day = int d, hour = int h,
                               minute = int mi, second = int sec, microsecond = int us\<rparr>
            | _ \<Rightarrow> Inl ValueError))"

text \<open>Datetimes compare as the tuples of their fields.\<close>

definition components :: "datetime \<Rightarrow> int list" where
  "components dt = [year dt, month dt, day dt, hour dt, minute dt, second dt, microsecond dt]"

fun tuple_less :: "int list \<Rightarrow> int list \<Rightarrow> bool" where
  "tuple_less [] [] = False"
| "tuple_less [] (y # ys) = True"
| "tuple_less (x # xs) [] = False"
| "tuple_less (x # xs) (y # ys) = (x < y \<or> (x = y \<and> tuple_less xs ys))"

definition datetime_less :: "datetime \<Rightarrow> datetime \<Rightarrow> bool" where
  "datetime_less a b = tuple_less (components a) (components b)"

section \<open>The data synthesizer\<close>

record individual =
  name :: string
  color :: string

definition individuals :: "individual list" where
  "individuals =
     [\<lparr>name = ''Alice'', color = ''#FF6B6B''\<rparr>,
      \<lparr>name = ''Bob'', color = ''#4ECDC4''\<rparr>,
      \<lparr>name = ''Charlie'', color = ''#45B7D1''\<rparr>,
      \<lparr>name = ''Diana'', color = ''#FFA726''\<rparr>,
      \<lparr>name = ''Eve'', color = ''#AB47BC''\<rparr>]"

definition start_date :: datetime where
  "start_date = mk_datetime 2024 1 1"

text \<open>The points added in one week: the \<^verbatim>\<open>if\<close>/\<^verbatim>\<open>elif\<close> chain on the name.\<close>

definition increment :: "string \<Rightarrow> int \<Rightarrow> int" where
  "increment nm week =
     (if nm = ''Alice'' then 15 + (week * 2) + (week mod 3 * 5)
      else if nm = ''Bob'' then 12 + (week * 3) + (week mod 2 * 3)
      else if nm = ''Charlie'' then 18 + (week * 1) + (week mod 4 * 7)
      else if nm = ''Diana'' then 10 + (week * 4) + (week mod 5 * 2)
      else 20 + (week * 2) + (week mod 3 * 4))"

definition make_record :: "individual \<Rightarrow> datetime \<Rightarrow> int \<Rightarrow> pyval" where
  "make_record ind week_date points =
     PDict [(''individual'', PStr (name ind)),
            (''color'', PStr (color ind)),
            (''week'', PStr (strftime week_date ''%Y-W%U'')),
            (''date'', PStr (isoformat week_date)),
            (''cumulative_points'', PInt points)]"

text \<open>The inner loop over the weeks: the state is the running total \<^verbatim>\<open>points\<close> and the
  list \<^verbatim>\<open>data\<close> that the records are appended to.\<close>

fun week_loop :: "individual \<Rightarrow> int list \<Rightarrow> int \<times> pyval list \<Rightarrow> py_error + (int \<times> pyval list)" where
  "week_loop ind [] st = Inr st"
| "week_loop ind (week # weeks) (points, data) =
     (case add_weeks start_date week of
        Inl e \<Rightarrow> Inl e
      | Inr week_date \<Rightarrow>
          (let points' = points + increment (name ind) week
           in week_loop ind weeks (points', data @ [make_record ind week_date points'])))"

text \<open>The outer loop over the individuals: \<^verbatim>\<open>points\<close> starts at 0 for each.\<close>

fun individual_loop :: "individual list \<Rightarrow> pyval list \<Rightarrow> py_error + pyval list" where
  "individual_loop [] data = Inr data"
| "individual_loop (ind # inds) data =
     (case week_loop ind (map int [0..<12]) (0, data) of
        Inl e \<Rightarrow> Inl e
      | Inr (points, data') \<Rightarrow> individual_loop inds data')"

definition generate_sample_data :: "py_error + pyval list" where
  "generate_sample_data = individual_loop individuals []"

section \<open>The synthesized sequence in closed form\<close>

text \<open>The date of week \<open>w\<close>, the running total after week \<open>w\<close> and the record of an
  individual for week \<open>w\<close>, written without the loops.\<close>

definition week_date :: "int \<Rightarrow> datetime" where
  "week_date w =
     (case ord2ymd (toordinal start_date + 7 * w) of
        (y, m, d) \<Rightarrow> start_date\<lparr>year := y, month := m, day := d\<rparr>)"

definition cumulative :: "string \<Rightarrow> nat \<Rightarrow> int" where
  "cumulative nm w = sum_list (map (increment nm) (map int [0..<Suc w]))"

definition expected_record :: "individual \<Rightarrow> nat \<Rightarrow> pyval" where
  "expected_record ind w = make_record ind (week_date (int w)) (cumulative (name ind) w)"

definition week_labels :: "string list" where
  "week_labels =
     [''2024-W00'', ''2024-W01'', ''2024-W02'', ''2024-W03'', ''2024-W04'', ''2024-W05'',
      ''2024-W06'', ''2024-W07'', ''2024-W08'', ''2024-W09'', ''2024-W10'', ''2024-W11'']"

definition week_isodates :: "string list" where
  "week_isodates =
     [''2024-01-01T00:00:00'', ''2024-01-08T00:00:00'', ''2024-01-15T00:00:00'',
      ''2024-01-22T00:00:00'', ''2024-01-29T00:00:00'', ''2024-02-05T00:00:00'',
      ''2024-02-12T00:00:00'', ''2024-02-19T00:00:00'', ''2024-02-26T00:00:00'',
      ''2024-03-04T00:00:00'', ''2024-03-11T00:00:00'', ''2024-03-18T00:00:00'']"

definition month_days :: "(int \<times> int) list" where
  "month_days =
     [(1, 1), (1, 8), (1, 15), (1, 22), (1, 29), (2, 5),
      (2, 12), (2, 19), (2, 26), (3, 4), (3, 11), (3, 18)]"

lemma toordinal_start_date: "toordinal start_date = 738886"
  by (simp add: toordinal_def start_date_def mk_datetime_def ymd2ord_def days_before_year_def
      days_before_month_def DAYS_BEFORE_MONTH_def)

lemma add_weeks_start_date:
  "0 \<le> w \<Longrightarrow> w \<le> 11 \<Longrightarrow> add_weeks start_date w = Inr (week_date w)"
  by (simp add: add_weeks_def week_date_def toordinal_start_date MAXORDINAL_def Let_def
      split: prod.splits)

lemma week_loop_append:
  "week_loop ind (xs @ ys) st =
     (case week_loop ind xs st of Inl e \<Rightarrow> Inl e | Inr st' \<Rightarrow> week_loop ind ys st')"
proof (induction xs arbitrary: st)
  case Nil
  show ?case by simp
next
  case (Cons x xs)
  obtain p d where st: "st = (p, d)" by (cases st)
  show ?case
    by (cases "add_weeks start_date x") (simp_all add: st Cons.IH Let_def)
qed

lemma week_loop_upt:
  "n \<le> 12 \<Longrightarrow>
   week_loop ind (map int [0..<n]) (0, d) =
     Inr (sum_list (map (increment (name ind)) (map int [0..<n])),
          d @ map (expected_record ind) [0..<n])"
proof (induction n)
  case 0
  show ?case by simp
next
  case (Suc n)
  then have n: "n \<le> 12" and w: "0 \<le> int n" "int n \<le> 11" by simp_all
  show ?case
    by (simp add: week_loop_append Suc.IH [OF n] add_weeks_start_date [OF w] Let_def
        expected_record_def cumulative_def)
qed

lemma individual_loop_eq:
  "individual_loop inds d =
     Inr (d @ concat (map (\<lambda>ind. map (expected_record ind) [0..<12]) inds))"
  by (induction inds arbitrary: d) (simp_all add: week_loop_upt)

lemma generate_sample_data_eq:
  "generate_sample_data =
     Inr (concat (map (\<lambda>ind. map (expected_record ind) [0..<12]) individuals))"
  by (simp add: generate_sample_data_def individual_loop_eq)

lemma range12: "[0..<12] = [0, 1, 2, 3, 4, 5, 6, 7, 8, 9, 10, 11]"
  by (simp add: upt_rec)

lemma week_dates:
  "map (\<lambda>w. week_date (int w)) [0..<12] = map (\<lambda>(m, d). mk_datetime 2024 m d) month_days"
  unfolding range12 week_date_def toordinal_start_date ord2ymd_def Let_def DAYS_BEFORE_MONTH_def
    DAYS_IN_MONTH_def month_days_def
  by (simp add: start_date_def mk_datetime_def)

lemma week_U_vals:
  "map (\<lambda>(m, d). week_U (mk_datetime 2024 m d)) month_days = [0,1,2,3,4,5,6,7,8,9,10,11]"
  unfolding week_U_def tm_yday_def tm_wday_def weekday_def toordinal_def ymd2ord_def
    days_before_year_def days_before_month_def DAYS_BEFORE_MONTH_def is_leap_def Let_def
    month_days_def
  by (simp add: mk_datetime_def)

lemma strftime_vals:
  "map (\<lambda>(m, d). strftime (mk_datetime 2024 m d) ''%Y-W%U'') month_days = week_labels"
  using week_U_vals
  by (simp add: month_days_def week_labels_def zpad_def dec.simps digit_char_def mk_datetime_def)

lemma isoformat_vals:
  "map (\<lambda>(m, d). isoformat (mk_datetime 2024 m d)) month_days = week_isodates"
  by (simp add: month_days_def week_isodates_def isoformat_def zpad_def dec.simps digit_char_def
      mk_datetime_def)

lemma fromisoformat_vals:
  "map fromisoformat week_isodates = map (\<lambda>(m, d). Inr (mk_datetime 2024 m d)) month_days"
  unfolding week_isodates_def month_days_def fromisoformat_def parse_isoformat_time_def
    parse_nat_def check_fields_def days_in_month_def DAYS_IN_MONTH_def is_leap_def
  by (simp add: digit_val_def mk_datetime_def)

definition records_of :: "string \<Rightarrow> pyval list \<Rightarrow> pyval list" where
  "records_of nm data = filter (\<lambda>r. getitem r ''individual'' = Inr (PStr nm)) data"

definition is_digit :: "char \<Rightarrow> bool" where
  "is_digit c \<longleftrightarrow> c \<in> set ''0123456789''"

definition is_hex_digit :: "char \<Rightarrow> bool" where
  "is_hex_digit c \<longleftrightarrow> c \<in> set ''0123456789abcdefABCDEF''"

definition is_hex_color :: "string \<Rightarrow> bool" where
  "is_hex_color s \<longleftrightarrow> length s = 7 \<and> s ! 0 = CHR ''#'' \<and> list_all is_hex_digit (drop 1 s)"

definition is_year_week :: "string \<Rightarrow> bool" where
  "is_year_week s \<longleftrightarrow>
     length s = 8 \<and> list_all is_digit (take 4 s) \<and> s ! 4 = CHR ''-'' \<and> s ! 5 = CHR ''W''
     \<and> list_all is_digit (drop 6 s)"

definition is_iso_datetime :: "string \<Rightarrow> bool" where
  "is_iso_datetime s \<longleftrightarrow>
     length s = 19 \<and> list_all is_digit (take 4 s) \<and> s ! 4 = CHR ''-''
     \<and> list_all is_digit (take 2 (drop 5 s)) \<and> s ! 7 = CHR ''-''
     \<and> list_all is_digit (take 2 (drop 8 s)) \<and> s ! 10 = CHR ''T''
     \<and> list_all is_digit (take 2 (drop 11 s)) \<and> s ! 13 = CHR '':''
     \<and> list_all is_digit (take 2 (drop 14 s)) \<and> s ! 16 = CHR '':''
     \<and> list_all is_digit (drop 17 s)"

lemma map_upt_nth: "map f [0..<n] = ys \<Longrightarrow> w < n \<Longrightarrow> f w = ys ! w"
  by (metis add_0 diff_zero nth_map_upt)

lemma length_month_days: "length month_days = 12"
  by (simp add: month_days_def)

lemma week_date_nth:
  assumes "w < 12"
  shows "week_date (int w) = (case month_days ! w of (m, d) \<Rightarrow> mk_datetime 2024 m d)"
  using map_upt_nth [OF week_dates assms] assms by (simp add: length_month_days)

lemma strftime_week_date:
  assumes "w < 12"
  shows "strftime (week_date (int w)) ''%Y-W%U'' = week_labels ! w"
proof -
  have "map (\<lambda>(m, d). strftime (mk_datetime 2024 m d) ''%Y-W%U'') month_days ! w = week_labels ! w"
    by (simp only: strftime_vals)
  then show ?thesis
    using assms by (simp add: week_date_nth length_month_days split: prod.splits)
qed

lemma isoformat_week_date:
  assumes "w < 12"
  shows "isoformat (week_date (int w)) = week_isodates ! w"
proof -
  have "map (\<lambda>(m, d). isoformat (mk_datetime 2024 m d)) month_days ! w = week_isodates ! w"
    by (simp only: isoformat_vals)
  then show ?thesis
    using assms by (simp add: week_date_nth length_month_days split: prod.splits)
qed

lemma fromisoformat_week_isodates:
  assumes "w < 12"
  shows "fromisoformat (week_isodates ! w) = Inr (week_date (int w))"
proof -
  have "length week_isodates = 12" by (simp add: week_isodates_def)
  then have "map fromisoformat week_isodates ! w = fromisoformat (week_isodates ! w)"
    using assms by simp
  then show ?thesis
    using assms
    by (simp add: fromisoformat_vals week_date_nth length_month_days split: prod.splits)
qed

lemma expected_record_eq:
  "w < 12 \<Longrightarrow>
   expected_record ind w =
     PDict [(''individual'', PStr (name ind)),
            (''color'', PStr (color ind)),
            (''week'', PStr (week_labels ! w)),
            (''date'', PStr (week_isodates ! w)),
            (''cumulative_points'', PInt (cumulative (name ind) w))]"
  unfolding expected_record_def make_record_def
  by (simp only: strftime_week_date isoformat_week_date)

lemma increment_positive: "0 \<le> week \<Longrightarrow> 0 < increment nm week"
proof -
  assume w: "0 \<le> week"
  have "0 \<le> week mod 3" "0 \<le> week mod 2" "0 \<le> week mod 4" "0 \<le> week mod 5"
    by simp_all
  with w show ?thesis
    by (simp add: increment_def add_pos_nonneg)
qed

lemma cumulative_0: "cumulative nm 0 = increment nm 0"
  by (simp add: cumulative_def)

lemma cumulative_Suc: "cumulative nm (Suc w) = cumulative nm w + increment nm (int (Suc w))"
  by (simp add: cumulative_def)

lemma toordinal_vals:
  "map (\<lambda>(m, d). toordinal (mk_datetime 2024 m d)) month_days
     = map (\<lambda>w. 738886 + 7 * int w) [0..<12]"
  unfolding range12 month_days_def toordinal_def ymd2ord_def days_before_year_def
    days_before_month_def DAYS_BEFORE_MONTH_def is_leap_def Let_def
  by (simp add: mk_datetime_def)

lemma toordinal_week_date:
  assumes "w < 12"
  shows "toordinal (week_date (int w)) = toordinal start_date + 7 * int w"
proof -
  have "map (\<lambda>(m, d). toordinal (mk_datetime 2024 m d)) month_days ! w = 738886 + 7 * int w"
    using assms by (simp only: toordinal_vals) simp
  then show ?thesis
    using assms
    by (simp add: week_date_nth length_month_days toordinal_start_date split: prod.splits)
qed

lemma week_date_time:
  "hour (week_date w) = 0 \<and> minute (week_date w) = 0 \<and> second (week_date w) = 0
   \<and> microsecond (week_date w) = 0"
  by (simp add: week_date_def start_date_def mk_datetime_def split: prod.splits)

lemma nth_concat_uniform:
  "\<forall>xs \<in> set xss. length xs = n \<Longrightarrow> i < length xss \<Longrightarrow> j < n \<Longrightarrow>
   concat xss ! (n * i + j) = xss ! i ! j"
proof (induction xss arbitrary: i)
  case Nil
  then show ?case by simp
next
  case (Cons xs xss)
  show ?case
  proof (cases i)
    case 0
    with Cons.prems show ?thesis by (simp add: nth_append)
  next
    case (Suc k)
    with Cons.prems have "concat xss ! (n * k + j) = xss ! k ! j"
      by (intro Cons.IH) simp_all
    moreover have "n * i + j = length xs + (n * k + j)"
      using Cons.prems Suc by simp
    ultimately show ?thesis
      using Suc by (simp add: nth_append)
  qed
qed

definition synthesized :: "pyval list" where
  "synthesized = concat (map (\<lambda>ind. map (expected_record ind) [0..<12]) individuals)"

lemma length_individuals: "length individuals = 5"
  by (simp add: individuals_def)

lemma length_synthesized: "length synthesized = 60"
  by (simp add: synthesized_def individuals_def)

lemma synthesized_nth:
  assumes "i < 5" "w < 12"
  shows "synthesized ! (12 * i + w) = expected_record (individuals ! i) w"
proof -
  let ?xss = "map (\<lambda>ind. map (expected_record ind) [0..<12]) individuals"
  have "concat ?xss ! (12 * i + w) = ?xss ! i ! w"
    using assms by (intro nth_concat_uniform) (auto simp: length_individuals)
  then show ?thesis
    using assms by (simp add: synthesized_def length_individuals)
qed

lemma getitem_expected_record:
  "getitem (expected_record ind w) ''individual'' = Inr (PStr (name ind))"
  "getitem (expected_record ind w) ''color'' = Inr (PStr (color ind))"
  "getitem (expected_record ind w) ''cumulative_points'' = Inr (PInt (cumulative (name ind) w))"
  by (simp_all add: expected_record_def make_record_def)

lemma records_of_block:
  "records_of nm (map (expected_record ind) ws)
     = (if name ind = nm then map (expected_record ind) ws else [])"
  by (induction ws) (simp_all add: records_of_def getitem_expected_record)

lemma records_of_append: "records_of nm (xs @ ys) = records_of nm xs @ records_of nm ys"
  by (simp add: records_of_def)

lemma records_of_synthesized:
  "ind \<in> set individuals \<Longrightarrow>
   records_of (name ind) synthesized = map (expected_record ind) [0..<12]"
  unfolding synthesized_def individuals_def
  by (auto simp add: records_of_append records_of_block simp del: upt_Suc)

lemma generate_sample_data_synthesized: "generate_sample_data = Inr synthesized"
  by (simp add: generate_sample_data_eq synthesized_def)

lemma block_eq:
  "map (expected_record ind) [0..<12] =
     map (\<lambda>w. PDict [(''individual'', PStr (name ind)),
            (''color'', PStr (color ind)),
            (''week'', PStr (week_labels ! w)),
            (''date'', PStr (week_isodates ! w)),
            (''cumulative_points'', PInt (cumulative (name ind) w))]) [0..<12]"
  by (rule map_cong [OF refl]) (simp add: expected_record_eq)

lemma block_individual:
  "map (\<lambda>w. getitem (expected_record ind w) ''individual'') [0..<12]
     = replicate 12 (Inr (PStr (name ind)))"
  by (simp add: getitem_expected_record map_replicate_const del: upt_Suc)

lemma block_week:
  "map (\<lambda>w. getitem (expected_record ind w) ''week'') [0..<12]
     = map (\<lambda>s. Inr (PStr s)) week_labels"
proof -
  have len: "length week_labels = 12" by (simp add: week_labels_def)
  have "map (\<lambda>w. getitem (expected_record ind w) ''week'') [0..<12]
        = map (\<lambda>w. Inr (PStr (week_labels ! w))) [0..<12]"
    by (rule map_cong [OF refl]) (simp add: expected_record_eq)
  also have "\<dots> = map (\<lambda>s. Inr (PStr s)) (map ((!) week_labels) [0..<length week_labels])"
    by (simp add: len o_def del: upt_Suc)
  finally show ?thesis by (simp only: map_nth)
qed

text \<open>
  Claim C1. \<^verbatim>\<open>generate_sample_data\<close> takes no argument and reads nothing, so the model
  is a constant: every call returns this one value. The call does not raise; it returns 60
  records, the concatenation over the five individuals (Alice, Bob, Charlie, Diana, Eve, in
  this order) of their twelve records in week order 0 to 11.
\<close>

theorem generate_sample_data_sequence:
  "\<exists>data. generate_sample_data = Inr data
     \<and> length data = 60
     \<and> data = concat (map (\<lambda>ind. map (expected_record ind) [0..<12]) individuals)
     \<and> map name individuals = [''Alice'', ''Bob'', ''Charlie'', ''Diana'', ''Eve'']
     \<and> map (\<lambda>r. getitem r ''individual'') data
         = concat (map (\<lambda>nm. replicate 12 (Inr (PStr nm)))
             [''Alice'', ''Bob'', ''Charlie'', ''Diana'', ''Eve''])
     \<and> map (\<lambda>r. getitem r ''week'') data
         = concat (replicate 5 (map (\<lambda>s. Inr (PStr s)) week_labels))"
proof -
  have names: "map name individuals = [''Alice'', ''Bob'', ''Charlie'', ''Diana'', ''Eve'']"
    by (simp add: individuals_def)
  have "map (\<lambda>r. getitem r ''individual'') synthesized
        = concat (map (\<lambda>ind. replicate 12 (Inr (PStr (name ind)))) individuals)"
    by (simp add: synthesized_def map_concat o_def block_individual del: upt_Suc)
  also have "\<dots> = concat (map (\<lambda>nm. replicate 12 (Inr (PStr nm))) (map name individuals))"
    by (simp add: o_def)
  finally have inds: "map (\<lambda>r. getitem r ''individual'') synthesized
        = concat (map (\<lambda>nm. replicate 12 (Inr (PStr nm)))
             [''Alice'', ''Bob'', ''Charlie'', ''Diana'', ''Eve''])"
    by (simp only: names)
  have "map (\<lambda>r. getitem r ''week'') synthesized
        = concat (map (\<lambda>ind. map (\<lambda>s. Inr (PStr s)) week_labels) individuals)"
    by (simp add: synthesized_def map_concat o_def block_week del: upt_Suc)
  also have "\<dots> = concat (replicate 5 (map (\<lambda>s. Inr (PStr s)) week_labels))"
    by (simp add: individuals_def numeral_eq_Suc)
  finally have weeks: "map (\<lambda>r. getitem r ''week'') synthesized
        = concat (replicate 5 (map (\<lambda>s. Inr (PStr s)) week_labels))" .
  show ?thesis
    using generate_sample_data_synthesized length_synthesized names inds weeks
    by (simp add: synthesized_def)
qed

text \<open>
  Claim C2. For every individual and every week index \<open>w\<close> from 0 to 11 the increment
  of week \<open>w\<close> is positive. The week-0 record holds the week-0 increment, and for \<open>w\<close>
  from 1 to 11 the cumulative points of the individual's record of week \<open>w\<close> are those
  of week \<open>w - 1\<close> plus the increment of week \<open>w\<close>: the total strictly increases.
\<close>

theorem cumulative_points_strictly_increasing:
  assumes "generate_sample_data = Inr data" and "ind \<in> set individuals" and "w \<le> 11"
  shows "0 < increment (name ind) (int w)
       \<and> (\<exists>b. getitem (records_of (name ind) data ! w) ''cumulative_points'' = Inr (PInt b)
            \<and> (w = 0 \<longrightarrow> b = increment (name ind) 0 \<and> 0 < b)
            \<and> (1 \<le> w \<longrightarrow>
                 (\<exists>a. getitem (records_of (name ind) data ! (w - 1)) ''cumulative_points''
                        = Inr (PInt a)
                      \<and> b = a + increment (name ind) (int w)
                      \<and> a < b)))"
proof -
  from assms(1) have data: "data = synthesized"
    by (simp add: generate_sample_data_synthesized)
  have sub: "records_of (name ind) data = map (expected_record ind) [0..<12]"
    by (simp only: data records_of_synthesized [OF assms(2)])
  have pos: "0 < increment (name ind) (int w)"
    by (rule increment_positive) simp
  have b: "getitem (records_of (name ind) data ! w) ''cumulative_points''
           = Inr (PInt (cumulative (name ind) w))"
    using assms(3) by (simp add: sub getitem_expected_record del: upt_Suc)
  have zero: "w = 0 \<longrightarrow> cumulative (name ind) w = increment (name ind) 0
                \<and> 0 < cumulative (name ind) w"
    using pos by (auto simp add: cumulative_0)
  have step: "1 \<le> w \<longrightarrow>
      (\<exists>a. getitem (records_of (name ind) data ! (w - 1)) ''cumulative_points'' = Inr (PInt a)
         \<and> cumulative (name ind) w = a + increment (name ind) (int w)
         \<and> a < cumulative (name ind) w)"
  proof
    assume "1 \<le> w"
    then obtain v where w: "w = Suc v" and v: "v < 12"
      using assms(3) by (cases w) simp_all
    have a: "getitem (records_of (name ind) data ! (w - 1)) ''cumulative_points''
             = Inr (PInt (cumulative (name ind) v))"
      using v by (simp add: sub w getitem_expected_record del: upt_Suc)
    show "\<exists>a. getitem (records_of (name ind) data ! (w - 1)) ''cumulative_points'' = Inr (PInt a)
         \<and> cumulative (name ind) w = a + increment (name ind) (int w)
         \<and> a < cumulative (name ind) w"
      using a pos by (simp add: w cumulative_Suc)
  qed
  show ?thesis
    using pos b zero step by blast
qed

theorem cumulative_points_strictly_increasing_witness:
  "\<exists>data a b. generate_sample_data = Inr data
     \<and> 0 < increment ''Alice'' 0 \<and> 0 < increment ''Alice'' 1
     \<and> getitem (records_of ''Alice'' data ! 0) ''cumulative_points'' = Inr (PInt a)
     \<and> a = increment ''Alice'' 0
     \<and> getitem (records_of ''Alice'' data ! 1) ''cumulative_points'' = Inr (PInt b)
     \<and> b = a + 22 \<and> a < b"
proof -
  let ?alice = "\<lparr>name = ''Alice'', color = ''#FF6B6B''\<rparr>"
  have mem: "?alice \<in> set individuals" by (simp add: individuals_def)
  have inc: "increment ''Alice'' 1 = 22" by (simp add: increment_def)
  show ?thesis
    using cumulative_points_strictly_increasing
      [OF generate_sample_data_synthesized mem, of 0]
      cumulative_points_strictly_increasing
      [OF generate_sample_data_synthesized mem, of 1] generate_sample_data_synthesized inc
    by auto
qed

lemma synthesized_fields:
  assumes "i < 5" and "w < 12" and "k = 12 * i + w"
  shows "getitem (synthesized ! k) ''individual'' = Inr (PStr (name (individuals ! i)))"
    and "getitem (synthesized ! k) ''color'' = Inr (PStr (color (individuals ! i)))"
    and "getitem (synthesized ! k) ''week'' = Inr (PStr (week_labels ! w))"
    and "getitem (synthesized ! k) ''date'' = Inr (PStr (week_isodates ! w))"
    and "getitem (synthesized ! k) ''cumulative_points''
           = Inr (PInt (cumulative (name (individuals ! i)) w))"
  using assms by (simp_all add: synthesized_nth expected_record_eq)

text \<open>
  Claim C3. Alice's week-0 record has 15 cumulative points, her week-1 record 37
  (15 plus the increment 22), and Bob's week-0 record 12.
\<close>

theorem concrete_cumulative_points:
  "\<exists>data. generate_sample_data = Inr data
     \<and> increment ''Alice'' 0 = 15
     \<and> getitem (data ! 0) ''individual'' = Inr (PStr ''Alice'')
     \<and> getitem (data ! 0) ''week'' = Inr (PStr ''2024-W00'')
     \<and> getitem (data ! 0) ''cumulative_points'' = Inr (PInt 15)
     \<and> increment ''Alice'' 1 = 22
     \<and> getitem (data ! 1) ''individual'' = Inr (PStr ''Alice'')
     \<and> getitem (data ! 1) ''week'' = Inr (PStr ''2024-W01'')
     \<and> getitem (data ! 1) ''cumulative_points'' = Inr (PInt 37)
     \<and> increment ''Bob'' 0 = 12
     \<and> getitem (data ! 12) ''individual'' = Inr (PStr ''Bob'')
     \<and> getitem (data ! 12) ''week'' = Inr (PStr ''2024-W00'')
     \<and> getitem (data ! 12) ''cumulative_points'' = Inr (PInt 12)"
proof -
  have inc: "increment ''Alice'' 0 = 15" "increment ''Alice'' 1 = 22" "increment ''Bob'' 0 = 12"
    by (simp_all add: increment_def)
  have a0: "getitem (synthesized ! 0) ''individual'' = Inr (PStr ''Alice'')"
      "getitem (synthesized ! 0) ''week'' = Inr (PStr ''2024-W00'')"
      "getitem (synthesized ! 0) ''cumulative_points'' = Inr (PInt 15)"
    using synthesized_fields [of 0 0 0]
    by (simp_all add: individuals_def week_labels_def cumulative_def increment_def)
  have a1: "getitem (synthesized ! 1) ''individual'' = Inr (PStr ''Alice'')"
      "getitem (synthesized ! 1) ''week'' = Inr (PStr ''2024-W01'')"
      "getitem (synthesized ! 1) ''cumulative_points'' = Inr (PInt 37)"
    using synthesized_fields [of 0 1 1]
    by (simp_all add: individuals_def week_labels_def cumulative_def increment_def)
  have b0: "getitem (synthesized ! 12) ''individual'' = Inr (PStr ''Bob'')"
      "getitem (synthesized ! 12) ''week'' = Inr (PStr ''2024-W00'')"
      "getitem (synthesized ! 12) ''cumulative_points'' = Inr (PInt 12)"
    using synthesized_fields [of 1 0 12]
    by (simp_all add: individuals_def week_labels_def cumulative_def increment_def)
  show ?thesis
    by (intro exI [of _ synthesized] conjI generate_sample_data_synthesized inc a0 a1 b0)
qed

lemma week_labels_format: "list_all is_year_week week_labels"
  by (simp add: week_labels_def is_year_week_def is_digit_def)

lemma week_isodates_format: "list_all is_iso_datetime week_isodates"
  by (simp add: week_isodates_def is_iso_datetime_def is_digit_def)

lemma individuals_colors: "list_all (\<lambda>ind. is_hex_color (color ind)) individuals"
  by (simp add: individuals_def is_hex_color_def is_hex_digit_def)

lemma length_week_labels: "length week_labels = 12"
  by (simp add: week_labels_def)

lemma length_week_isodates: "length week_isodates = 12"
  by (simp add: week_isodates_def)

text \<open>
  Claim C5. Each of the 60 records (index \<open>k\<close>, week index \<open>k mod 12\<close>) is a dictionary
  with exactly the keys individual, color, week, date and cumulative_points, in this order:
  the individual and the color are strings, the color a \<^verbatim>\<open>#\<close> and six hexadecimal
  digits, the week a string of the shape \<^verbatim>\<open>YYYY-Www\<close>, the cumulative points an integer,
  and the date the ISO string \<^verbatim>\<open>YYYY-MM-DDTHH:MM:SS\<close> of midnight of 2024-01-01 plus
  \<open>k mod 12\<close> weeks: parsing it back gives that datetime, whose ordinal is seven times the
  week index after that of 2024-01-01.
\<close>

theorem exported_record_shape:
  assumes "generate_sample_data = Inr data" and "k < 60"
  shows "\<exists>nm c wk dt p d.
           data ! k = PDict [(''individual'', PStr nm), (''color'', PStr c), (''week'', PStr wk),
                             (''date'', PStr dt), (''cumulative_points'', PInt p)]
           \<and> is_hex_color c \<and> is_year_week wk \<and> is_iso_datetime dt
           \<and> dt = isoformat d
           \<and> fromisoformat dt = Inr d
           \<and> add_weeks (mk_datetime 2024 1 1) (int (k mod 12)) = Inr d
           \<and> toordinal d = toordinal (mk_datetime 2024 1 1) + 7 * int (k mod 12)
           \<and> hour d = 0 \<and> minute d = 0 \<and> second d = 0 \<and> microsecond d = 0"
proof -
  define i w where "i = k div 12" and "w = k mod 12"
  have i: "i < 5" and w: "w < 12" and k: "k = 12 * i + w"
    using assms(2) by (simp_all add: i_def w_def)
  from assms(1) have data: "data = synthesized"
    by (simp add: generate_sample_data_synthesized)
  let ?ind = "individuals ! i"
  have rec: "data ! k = PDict [(''individual'', PStr (name ?ind)), (''color'', PStr (color ?ind)),
        (''week'', PStr (week_labels ! w)), (''date'', PStr (week_isodates ! w)),
        (''cumulative_points'', PInt (cumulative (name ?ind) w))]"
    by (simp only: data k synthesized_nth [OF i w] expected_record_eq [OF w])
  have c: "is_hex_color (color ?ind)"
    using individuals_colors i by (simp add: list_all_length length_individuals)
  have wk: "is_year_week (week_labels ! w)"
    using week_labels_format w by (simp add: list_all_length length_week_labels)
  have dt: "is_iso_datetime (week_isodates ! w)"
    using week_isodates_format w by (simp add: list_all_length length_week_isodates)
  have iso: "week_isodates ! w = isoformat (week_date (int w))"
    by (simp only: isoformat_week_date [OF w])
  have w': "0 \<le> int w" "int w \<le> 11" using w by simp_all
  have add: "add_weeks (mk_datetime 2024 1 1) (int w) = Inr (week_date (int w))"
    using add_weeks_start_date [OF w'] by (simp only: start_date_def)
  have ord: "toordinal (week_date (int w)) = toordinal (mk_datetime 2024 1 1) + 7 * int w"
    using toordinal_week_date [OF w] by (simp only: start_date_def)
  show ?thesis
    using rec c wk dt iso fromisoformat_week_isodates [OF w] add ord week_date_time [of "int w"]
    unfolding w_def [symmetric] by blast
qed

theorem exported_record_shape_witness:
  "\<exists>data nm c wk dt p d.
     generate_sample_data = Inr data
     \<and> data ! 13 = PDict [(''individual'', PStr nm), (''color'', PStr c), (''week'', PStr wk),
                          (''date'', PStr dt), (''cumulative_points'', PInt p)]
     \<and> is_hex_color c \<and> is_year_week wk \<and> is_iso_datetime dt
     \<and> fromisoformat dt = Inr d
     \<and> toordinal d = toordinal (mk_datetime 2024 1 1) + 7"
  using exported_record_shape [OF generate_sample_data_synthesized, of 13]
    generate_sample_data_synthesized
  by auto

lemma distinct_week_labels: "distinct week_labels"
  by (simp add: week_labels_def)

lemma sorted_week_dates: "sorted_wrt datetime_less (map (\<lambda>w. week_date (int w)) [0..<12])"
  unfolding week_dates month_days_def
  by (simp add: datetime_less_def components_def mk_datetime_def)

lemma add_weeks_vals:
  "map (\<lambda>w. add_weeks start_date (int w)) [0..<12] = map Inr (map (\<lambda>w. week_date (int w)) [0..<12])"
  unfolding map_map o_def
  by (rule map_cong [OF refl]) (simp add: add_weeks_start_date)

text \<open>
  Claim C6. The records of one individual are twelve; their week labels, the
  \<^verbatim>\<open>%Y-W%U\<close> labels of 2024-01-01 plus 0 to 11 weeks, are pairwise distinct, and their
  dates, in the order of the records, are strictly increasing.
\<close>

theorem week_labels_distinct_dates_increasing:
  assumes "generate_sample_data = Inr data" and "ind \<in> set individuals"
  shows "\<exists>ds. length (records_of (name ind) data) = 12
           \<and> map (\<lambda>w. add_weeks (mk_datetime 2024 1 1) (int w)) [0..<12] = map Inr ds
           \<and> map (\<lambda>r. getitem r ''week'') (records_of (name ind) data)
               = map (\<lambda>d. Inr (PStr (strftime d ''%Y-W%U''))) ds
           \<and> distinct (map (\<lambda>r. getitem r ''week'') (records_of (name ind) data))
           \<and> map (\<lambda>r. getitem r ''date'') (records_of (name ind) data)
               = map (\<lambda>d. Inr (PStr (isoformat d))) ds
           \<and> map (\<lambda>d. fromisoformat (isoformat d)) ds = map Inr ds
           \<and> sorted_wrt datetime_less ds"
proof -
  let ?ds = "map (\<lambda>w. week_date (int w)) [0..<12]"
  from assms(1) have data: "data = synthesized"
    by (simp add: generate_sample_data_synthesized)
  have sub: "records_of (name ind) data = map (expected_record ind) [0..<12]"
    by (simp only: data records_of_synthesized [OF assms(2)])
  have len: "length (records_of (name ind) data) = 12"
    by (simp add: sub del: upt_Suc)
  have add: "map (\<lambda>w. add_weeks (mk_datetime 2024 1 1) (int w)) [0..<12] = map Inr ?ds"
    using add_weeks_vals by (simp only: start_date_def)
  have weeks: "map (\<lambda>r. getitem r ''week'') (records_of (name ind) data)
               = map (\<lambda>d. Inr (PStr (strftime d ''%Y-W%U''))) ?ds"
    unfolding sub map_map o_def
    by (rule map_cong [OF refl]) (simp add: expected_record_def make_record_def)
  have "map (\<lambda>r. getitem r ''week'') (records_of (name ind) data)
        = map (\<lambda>s. Inr (PStr s)) week_labels"
    by (simp add: sub o_def block_week del: upt_Suc)
  moreover have "distinct (map (\<lambda>s. Inr (PStr s) :: py_error + pyval) week_labels)"
    by (simp add: distinct_map distinct_week_labels inj_on_def)
  ultimately have dist: "distinct (map (\<lambda>r. getitem r ''week'') (records_of (name ind) data))"
    by simp
  have dates: "map (\<lambda>r. getitem r ''date'') (records_of (name ind) data)
               = map (\<lambda>d. Inr (PStr (isoformat d))) ?ds"
    unfolding sub map_map o_def
    by (rule map_cong [OF refl]) (simp add: expected_record_def make_record_def)
  have parse: "map (\<lambda>d. fromisoformat (isoformat d)) ?ds = map Inr ?ds"
    unfolding map_map o_def
    by (rule map_cong [OF refl]) (simp add: isoformat_week_date fromisoformat_week_isodates)
  show ?thesis
    using len add weeks dist dates parse sorted_week_dates by blast
qed

theorem week_labels_distinct_dates_increasing_witness:
  "\<exists>data ds. generate_sample_data = Inr data
     \<and> length (records_of ''Bob'' data) = 12
     \<and> distinct (map (\<lambda>r. getitem r ''week'') (records_of ''Bob'' data))
     \<and> map (\<lambda>r. getitem r ''date'') (records_of ''Bob'' data)
         = map (\<lambda>d. Inr (PStr (isoformat d))) ds
     \<and> sorted_wrt datetime_less ds"
proof -
  let ?bob = "\<lparr>name = ''Bob'', color = ''#4ECDC4''\<rparr>"
  have mem: "?bob \<in> set individuals" by (simp add: individuals_def)
  show ?thesis
    using week_labels_distinct_dates_increasing [OF generate_sample_data_synthesized mem]
      generate_sample_data_synthesized
    by auto
qed

text \<open>
  Claim C10. The table of names and colors is the constant one, each of an individual's
  twelve records carries that individual's color, and every record of the sequence pairs a
  name of the table with its color.
\<close>

theorem individual_color_constant:
  assumes "generate_sample_data = Inr data" and "ind \<in> set individuals"
  shows "map (\<lambda>ind. (name ind, color ind)) individuals
           = [(''Alice'', ''#FF6B6B''), (''Bob'', ''#4ECDC4''), (''Charlie'', ''#45B7D1''),
              (''Diana'', ''#FFA726''), (''Eve'', ''#AB47BC'')]
         \<and> length (records_of (name ind) data) = 12
         \<and> map (\<lambda>r. getitem r ''color'') (records_of (name ind) data)
             = replicate 12 (Inr (PStr (color ind)))
         \<and> list_all (\<lambda>r. \<exists>i \<in> set individuals.
               getitem r ''individual'' = Inr (PStr (name i))
               \<and> getitem r ''color'' = Inr (PStr (color i))) data"
proof -
  from assms(1) have data: "data = synthesized"
    by (simp add: generate_sample_data_synthesized)
  have sub: "records_of (name ind) data = map (expected_record ind) [0..<12]"
    by (simp only: data records_of_synthesized [OF assms(2)])
  have table: "map (\<lambda>ind. (name ind, color ind)) individuals
           = [(''Alice'', ''#FF6B6B''), (''Bob'', ''#4ECDC4''), (''Charlie'', ''#45B7D1''),
              (''Diana'', ''#FFA726''), (''Eve'', ''#AB47BC'')]"
    by (simp add: individuals_def)
  have len: "length (records_of (name ind) data) = 12"
    by (simp add: sub del: upt_Suc)
  have col: "map (\<lambda>r. getitem r ''color'') (records_of (name ind) data)
             = replicate 12 (Inr (PStr (color ind)))"
    by (simp add: sub o_def getitem_expected_record map_replicate_const del: upt_Suc)
  have all: "list_all (\<lambda>r. \<exists>i \<in> set individuals.
               getitem r ''individual'' = Inr (PStr (name i))
               \<and> getitem r ''color'' = Inr (PStr (color i))) data"
    unfolding data synthesized_def list_all_iff
    by (auto simp add: getitem_expected_record simp del: upt_Suc)
  show ?thesis
    using table len col all by blast
qed

theorem individual_color_constant_witness:
  "\<exists>data. generate_sample_data = Inr data
     \<and> map (\<lambda>r. getitem r ''color'') (records_of ''Eve'' data)
         = replicate 12 (Inr (PStr ''#AB47BC''))"
proof -
  let ?eve = "\<lparr>name = ''Eve'', color = ''#AB47BC''\<rparr>"
  have mem: "?eve \<in> set individuals" by (simp add: individuals_def)
  show ?thesis
    using individual_color_constant [OF generate_sample_data_synthesized mem]
      generate_sample_data_synthesized
    by auto
qed

section \<open>The JSON encoder\<close>

text \<open>
  \<^verbatim>\<open>json.dump(data, f, indent=2)\<close>: the default encoder with \<^verbatim>\<open>ensure_ascii\<close>, the item
  separator \<^verbatim>\<open>,\<close> and the key separator \<^verbatim>\<open>: \<close> (the defaults when an indent is given),
  keys in insertion order. Characters are code points 0 to 255.
\<close>

definition hex_char :: "nat \<Rightarrow> char" where
  "hex_char d = ''0123456789abcdef'' ! d"

definition escape_char :: "char \<Rightarrow> string" where
  "escape_char c =
     (if c = CHR 0x5C then [CHR 0x5C, CHR 0x5C]
      else if c = CHR 0x22 then [CHR 0x5C, CHR 0x22]
      else if c = CHR 0x08 then [CHR 0x5C, CHR ''b'']
      else if c = CHR 0x0C then [CHR 0x5C, CHR ''f'']
      else if c = CHR 0x0A then [CHR 0x5C, CHR ''n'']
      else if c = CHR 0x0D then [CHR 0x5C, CHR ''r'']
      else if c = CHR 0x09 then [CHR 0x5C, CHR ''t'']
      else if (of_char c :: nat) < 32 \<or> 126 < (of_char c :: nat)
      then [CHR 0x5C, CHR ''u'', CHR ''0'', CHR ''0'',
            hex_char (of_char c div 16), hex_char (of_char c mod 16)]
      else [c])"

definition encode_basestring_ascii :: "string \<Rightarrow> string" where
  "encode_basestring_ascii s = CHR 0x22 # concat (map escape_char s) @ [CHR 0x22]"

definition int_repr :: "int \<Rightarrow> string" where
  "int_repr i = (if i < 0 then CHR ''-'' # dec (nat (- i)) else dec (nat i))"

definition newline_indent :: "nat \<Rightarrow> string" where
  "newline_indent level = CHR 0x0A # replicate (2 * level) CHR '' ''"

fun iterencode :: "nat \<Rightarrow> pyval \<Rightarrow> string"
  and iterencode_list :: "nat \<Rightarrow> pyval list \<Rightarrow> string"
  and iterencode_dict :: "nat \<Rightarrow> (string \<times> pyval) list \<Rightarrow> string"
where
  "iterencode level (PStr s) = encode_basestring_ascii s"
| "iterencode level PNone = ''null''"
| "iterencode level (PBool b) = (if b then ''true'' else ''false'')"
| "iterencode level (PInt i) = int_repr i"
| "iterencode level (PList []) = ''[]''"
| "iterencode level (PList (x # xs)) =
     ''['' @ newline_indent (level + 1) @ iterencode_list (level + 1) (x # xs)
     @ newline_indent level @ '']''"
| "iterencode level (PDict []) = ''{}''"
| "iterencode level (PDict (kv # kvs)) =
     ''{'' @ newline_indent (level + 1) @ iterencode_dict (level + 1) (kv # kvs)
     @ newline_indent level @ ''}''"
| "iterencode_list level [] = []"
| "iterencode_list level [x] = iterencode level x"
| "iterencode_list level (x # y # ys) =
     iterencode level x @ '','' @ newline_indent level @ iterencode_list level (y # ys)"
| "iterencode_dict level [] = []"
| "iterencode_dict level [(k, v)] = encode_basestring_ascii k @ '': '' @ iterencode level v"
| "iterencode_dict level ((k, v) # kv # kvs) =
     encode_basestring_ascii k @ '': '' @ iterencode level v
     @ '','' @ newline_indent level @ iterencode_dict level (kv # kvs)"

definition json_dumps :: "pyval \<Rightarrow> string" where
  "json_dumps obj = iterencode 0 obj"

section \<open>The file system and the console\<close>

text \<open>
  The script's effects are a directory, two files and lines on the console. The world is
  a table from paths to nodes, the set of read-only paths and the lines printed so far.
  Paths are relative to the current directory, which is the path \<open>''''\<close> and always exists;
  they are compared as written (no \<^verbatim>\<open>.\<close>, \<^verbatim>\<open>..\<close>, doubled or trailing slashes).
\<close>

record line2d =
  xdata :: "datetime list"
  ydata :: "pyval list"
  line_color :: pyval
  line_label :: pyval

record figure =
  lines :: "line2d list"
  xlabel :: string
  ylabel :: string
  title :: string
  xaxis_format :: string
  xticks_rotation :: int
  grid :: bool
  legend :: "pyval list option"

datatype content = Image figure | Text string

datatype node = Dir | File content

record world =
  nodes :: "string \<Rightarrow> node option"
  readonly :: "string set"
  stdout :: "string list"

type_synonym 'a io = "world \<Rightarrow> (py_error + 'a) \<times> world"

definition print :: "string \<Rightarrow> world \<Rightarrow> world" where
  "print line w = w\<lparr>stdout := stdout w @ [line]\<rparr>"

definition rstrip_slashes :: "string \<Rightarrow> string" where
  "rstrip_slashes p = rev (dropWhile (\<lambda>c. c = CHR ''/'') (rev p))"

text \<open>\<^verbatim>\<open>os.path.split\<close>: the part up to the last slash, without its trailing slashes
  unless it is the root, and the part after it.\<close>

definition dirname :: "string \<Rightarrow> string" where
  "dirname p =
     (let head = rev (dropWhile (\<lambda>c. c \<noteq> CHR ''/'') (rev p))
      in if rstrip_slashes head = [] then head else rstrip_slashes head)"

definition basename :: "string \<Rightarrow> string" where
  "basename p = rev (takeWhile (\<lambda>c. c \<noteq> CHR ''/'') (rev p))"

definition os_path_join :: "string \<Rightarrow> string \<Rightarrow> string" where
  "os_path_join a b =
     (if b \<noteq> [] \<and> hd b = CHR ''/'' then b
      else if a = [] \<or> last a = CHR ''/'' then a @ b
      else a @ ''/'' @ b)"

definition is_dir :: "world \<Rightarrow> string \<Rightarrow> bool" where
  "is_dir w p \<longleftrightarrow> p = [] \<or> nodes w p = Some Dir"

definition path_exists :: "world \<Rightarrow> string \<Rightarrow> bool" where
  "path_exists w p \<longleftrightarrow> p = [] \<or> nodes w p \<noteq> None"

text \<open>The error of reaching into a parent that is no directory.\<close>

definition parent_error :: "world \<Rightarrow> string \<Rightarrow> py_error" where
  "parent_error w p =
     (if path_exists w (dirname p) then NotADirectoryError else FileNotFoundError)"

definition mkdir :: "string \<Rightarrow> unit io" where
  "mkdir p w =
     (if p = [] then (Inl FileNotFoundError, w)
      else if nodes w p \<noteq> None then (Inl FileExistsError, w)
      else if \<not> is_dir w (dirname p) then (Inl (parent_error w p), w)
      else if dirname p \<in> readonly w then (Inl PermissionError, w)
      else (Inr (), w\<lparr>nodes := (nodes w)(p \<mapsto> Dir)\<rparr>))"

lemma length_dirname: "basename p \<noteq> [] \<Longrightarrow> length (dirname p) < length p"
proof -
  assume b: "basename p \<noteq> []"
  let ?head = "rev (dropWhile (\<lambda>c. c \<noteq> CHR ''/'') (rev p))"
  have "length (takeWhile (\<lambda>c. c \<noteq> CHR ''/'') (rev p))
        + length (dropWhile (\<lambda>c. c \<noteq> CHR ''/'') (rev p)) = length (rev p)"
    by (metis length_append takeWhile_dropWhile_id)
  moreover have "0 < length (takeWhile (\<lambda>c. c \<noteq> CHR ''/'') (rev p))"
    using b by (simp add: basename_def)
  ultimately have head: "length ?head < length p"
    unfolding length_rev by linarith
  have "length (rstrip_slashes ?head) \<le> length ?head"
    by (simp add: rstrip_slashes_def length_dropWhile_le)
  with head show ?thesis
    by (simp add: dirname_def Let_def)
qed

text \<open>\<^verbatim>\<open>os.makedirs(name, exist_ok=True)\<close>: the missing ancestors first, then the leaf; an
  error of the leaf's \<^verbatim>\<open>mkdir\<close> is swallowed when the leaf is a directory already.\<close>

function makedirs :: "string \<Rightarrow> unit io" where
  "makedirs p w =
     (case (if dirname p \<noteq> [] \<and> basename p \<noteq> [] \<and> \<not> path_exists w (dirname p)
            then (case makedirs (dirname p) w of
                    (Inl e, w') \<Rightarrow> if e = FileExistsError then (Inr (), w') else (Inl e, w')
                  | (Inr u, w') \<Rightarrow> (Inr (), w'))
            else (Inr (), w)) of
        (Inl e, w1) \<Rightarrow> (Inl e, w1)
      | (Inr u, w1) \<Rightarrow>
          (case mkdir p w1 of
             (Inl e, w2) \<Rightarrow> if nodes w2 p = Some Dir then (Inr (), w2) else (Inl e, w2)
           | (Inr u, w2) \<Rightarrow> (Inr (), w2)))"
  by pat_completeness auto
termination
  by (relation "measure (\<lambda>(p, w). length p)") (auto simp: length_dirname)

declare makedirs.simps [simp del]

text \<open>\<^verbatim>\<open>open(path, 'w')\<close>, the writes and the close, as one step: the file holds the new
  content afterwards, whatever it held before.\<close>

definition write_file :: "string \<Rightarrow> content \<Rightarrow> unit io" where
  "write_file path c w =
     (if path = [] then (Inl FileNotFoundError, w)
      else if nodes w path = Some Dir then (Inl IsADirectoryError, w)
      else if \<not> is_dir w (dirname path) then (Inl (parent_error w path), w)
      else if nodes w path = None \<and> dirname path \<in> readonly w then (Inl PermissionError, w)
      else if nodes w path \<noteq> None \<and> path \<in> readonly w then (Inl PermissionError, w)
      else (Inr (), w\<lparr>nodes := (nodes w)(path \<mapsto> File c)\<rparr>))"

section \<open>The chart renderer\<close>

text \<open>
  Matplotlib is modelled by what the script asks of it: the figure records the lines that
  were plotted and the labels, format, grid and legend that were set, and
  \<^verbatim>\<open>savefig\<close> writes that figure to the path. The styling constants (figure size,
  marker, widths, font sizes, resolution) do not depend on the data and are left out, and
  matplotlib's own checks of colours and values are outside the model.
\<close>

record group =
  g_dates :: "datetime list"
  g_points :: "pyval list"
  g_color :: pyval

text \<open>Lists and dictionaries cannot be dictionary keys; \<^verbatim>\<open>True\<close> and \<^verbatim>\<open>1\<close> are the
  same key.\<close>

fun hashable :: "pyval \<Rightarrow> bool" where
  "hashable (PList xs) = False"
| "hashable (PDict kvs) = False"
| "hashable v = True"

fun dict_key :: "pyval \<Rightarrow> pyval" where
  "dict_key (PBool b) = PInt (if b then 1 else 0)"
| "dict_key v = v"

definition has_key :: "pyval \<Rightarrow> (pyval \<times> group) list \<Rightarrow> bool" where
  "has_key k d \<longleftrightarrow> dict_key k \<in> set (map (dict_key \<circ> fst) d)"

fun update_group :: "pyval \<Rightarrow> (group \<Rightarrow> group) \<Rightarrow> (pyval \<times> group) list \<Rightarrow> (pyval \<times> group) list" where
  "update_group k f [] = []"
| "update_group k f ((k', g) # d) =
     (if dict_key k' = dict_key k then (k', f g) # d else (k', g) # update_group k f d)"

definition py_fromisoformat :: "pyval \<Rightarrow> py_error + datetime" where
  "py_fromisoformat v = (case v of PStr s \<Rightarrow> fromisoformat s | _ \<Rightarrow> Inl TypeError)"

text \<open>The grouping loop: a group is opened, with the record's color, at the first record of
  a name, and every record appends its date and its points to the group of its name.\<close>

fun group_loop :: "pyval list \<Rightarrow> (pyval \<times> group) list \<Rightarrow> py_error + (pyval \<times> group) list" where
  "group_loop [] individuals_data = Inr individuals_data"
| "group_loop (rec # rest) individuals_data =
     (case getitem rec ''individual'' of
        Inl e \<Rightarrow> Inl e
      | Inr nm \<Rightarrow>
          if \<not> hashable nm then Inl TypeError
          else
            (case (if \<not> has_key nm individuals_data
                   then (case getitem rec ''color'' of
                           Inl e \<Rightarrow> Inl e
                         | Inr c \<Rightarrow>
                             Inr (individuals_data
                                  @ [(nm, \<lparr>g_dates = [], g_points = [], g_color = c\<rparr>)]))
                   else Inr individuals_data) of
               Inl e \<Rightarrow> Inl e
             | Inr d1 \<Rightarrow>
                 (case getitem rec ''date'' of
                    Inl e \<Rightarrow> Inl e
                  | Inr dv \<Rightarrow>
                      (case py_fromisoformat dv of
                         Inl e \<Rightarrow> Inl e
                       | Inr dt \<Rightarrow>
                           (case getitem rec ''cumulative_points'' of
                              Inl e \<Rightarrow> Inl e
                            | Inr pts \<Rightarrow>
                                group_loop rest
                                  (update_group nm (\<lambda>g. g\<lparr>g_points := g_points g @ [pts]\<rparr>)
                                    (update_group nm (\<lambda>g. g\<lparr>g_dates := g_dates g @ [dt]\<rparr>)
                                      d1)))))))"

text \<open>The plotting loop: one line per group, in the order the groups were opened.\<close>

definition plot :: "pyval \<times> group \<Rightarrow> line2d" where
  "plot item =
     (case item of (nm, person_data) \<Rightarrow>
        \<lparr>xdata = g_dates person_data, ydata = g_points person_data,
         line_color = g_color person_data, line_label = nm\<rparr>)"

text \<open>The legend lists the labelled lines; a label that starts with an underscore is
  left out.\<close>

fun in_legend :: "pyval \<Rightarrow> bool" where
  "in_legend (PStr (c # cs)) = (c \<noteq> CHR ''_'')"
| "in_legend v = True"

definition draw :: "(pyval \<times> group) list \<Rightarrow> figure" where
  "draw individuals_data =
     (let ls = map plot individuals_data
      in \<lparr>lines = ls,
          xlabel = ''Time (Weeks)'',
          ylabel = ''Cumulative Points'',
          title = ''Individual Point Tracking Over Time'',
          xaxis_format = ''%Y-W%U'',
          xticks_rotation = 45,
          grid = True,
          legend = Some (filter in_legend (map line_label ls))\<rparr>)"

definition savefig :: "string \<Rightarrow> figure \<Rightarrow> unit io" where
  "savefig output_path fig w = write_file output_path (Image fig) w"

definition create_line_chart :: "pyval list \<Rightarrow> string \<Rightarrow> unit io" where
  "create_line_chart data output_path w =
     (case group_loop data [] of
        Inl e \<Rightarrow> (Inl e, w)
      | Inr individuals_data \<Rightarrow>
          (case savefig output_path (draw individuals_data) w of
             (Inl e, w') \<Rightarrow> (Inl e, w')
           | (Inr u, w') \<Rightarrow> (Inr (), print (''Chart saved to: '' @ output_path) w')))"

section \<open>The data exporter and the orchestration\<close>

definition save_data_as_json :: "pyval list \<Rightarrow> string \<Rightarrow> unit io" where
  "save_data_as_json data output_path w =
     (case write_file output_path (Text (json_dumps (PList data))) w of
        (Inl e, w') \<Rightarrow> (Inl e, w')
      | (Inr u, w') \<Rightarrow> (Inr (), print (''Data saved to: '' @ output_path) w'))"

definition output_dir :: string where
  "output_dir = ''charts''"

definition chart_path :: string where
  "chart_path = os_path_join output_dir ''individual_points_line_chart.png''"

definition data_path :: string where
  "data_path = os_path_join output_dir ''point_tracking_data.json''"

text \<open>\<^verbatim>\<open>main\<close> has no \<^verbatim>\<open>try\<close>: the first error ends the run.\<close>

definition main :: "unit io" where
  "main w =
     (let w0 = print ''Generating individual point tracking chart...'' w
      in case generate_sample_data of
           Inl e \<Rightarrow> (Inl e, w0)
         | Inr data \<Rightarrow>
             (case makedirs output_dir w0 of
                (Inl e, w1) \<Rightarrow> (Inl e, w1)
              | (Inr u, w1) \<Rightarrow>
                  (case create_line_chart data chart_path w1 of
                     (Inl e, w2) \<Rightarrow> (Inl e, w2)
                   | (Inr u, w2) \<Rightarrow>
                       (case save_data_as_json data data_path w2 of
                          (Inl e, w3) \<Rightarrow> (Inl e, w3)
                        | (Inr u, w3) \<Rightarrow>
                            (Inr (),
                             print (''Data location: '' @ data_path)
                               (print (''Chart location: '' @ chart_path)
                                 (print ''Chart generation completed successfully!'' w3)))))))"

definition empty_world :: world where
  "empty_world = \<lparr>nodes = Map.empty, readonly = {}, stdout = []\<rparr>"

section \<open>What the renderer, the exporter and the orchestration do to the world\<close>

text \<open>A path can be written when it is not a directory, its directory exists, and neither
  the file (when it exists) nor the directory (when it does not) is read-only.\<close>

definition can_write :: "world \<Rightarrow> string \<Rightarrow> bool" where
  "can_write w p \<longleftrightarrow>
     p \<noteq> [] \<and> nodes w p \<noteq> Some Dir \<and> is_dir w (dirname p)
     \<and> (if nodes w p = None then dirname p \<notin> readonly w else p \<notin> readonly w)"

lemma write_file_ok:
  "can_write w p \<Longrightarrow> write_file p c w = (Inr (), w\<lparr>nodes := (nodes w)(p \<mapsto> File c)\<rparr>)"
  by (auto simp add: can_write_def write_file_def split: if_splits)

lemma write_file_fail: "write_file p c w = (Inl e, w') \<Longrightarrow> w' = w \<and> \<not> can_write w p"
  by (auto simp add: can_write_def write_file_def split: if_splits)

lemma write_file_iff: "(\<exists>e. write_file p c w = (Inl e, w)) \<longleftrightarrow> \<not> can_write w p"
  by (auto simp add: can_write_def write_file_def split: if_splits)

lemma write_file_no_parent:
  "\<not> is_dir w (dirname p) \<Longrightarrow> \<exists>e. write_file p c w = (Inl e, w)"
  by (simp add: write_file_iff can_write_def)

lemma write_file_dirs:
  "(nodes (snd (write_file p c w)) q = Some Dir) = (nodes w q = Some Dir)"
  by (auto simp add: write_file_def)

lemma write_file_other:
  "q \<noteq> p \<Longrightarrow> nodes (snd (write_file p c w)) q = nodes w q"
  by (auto simp add: write_file_def)

lemma nodes_print [simp]: "nodes (print l w) = nodes w"
  by (simp add: print_def)

lemma readonly_print [simp]: "readonly (print l w) = readonly w"
  by (simp add: print_def)

lemma create_line_chart_dirs:
  "(nodes (snd (create_line_chart data path w)) q = Some Dir) = (nodes w q = Some Dir)"
proof (cases "group_loop data []")
  case (Inl e)
  then show ?thesis by (simp add: create_line_chart_def)
next
  case (Inr g)
  obtain r w' where wf: "write_file path (Image (draw g)) w = (r, w')"
    by (cases "write_file path (Image (draw g)) w")
  have "(nodes w' q = Some Dir) = (nodes w q = Some Dir)"
    using write_file_dirs [of path "Image (draw g)" w q] by (simp add: wf)
  then show ?thesis
    by (cases r) (simp_all add: create_line_chart_def Inr savefig_def wf)
qed

lemma create_line_chart_fail:
  "create_line_chart data path w = (Inl e, w') \<Longrightarrow> w' = w"
  by (auto simp add: create_line_chart_def savefig_def
      split: sum.splits prod.splits dest: write_file_fail)

lemma create_line_chart_no_parent:
  assumes "\<not> is_dir w (dirname path)"
  shows "\<exists>e. create_line_chart data path w = (Inl e, w)"
proof (cases "group_loop data []")
  case (Inl e)
  then show ?thesis by (simp add: create_line_chart_def)
next
  case (Inr g)
  from write_file_no_parent [OF assms] obtain e
    where "write_file path (Image (draw g)) w = (Inl e, w)" by blast
  then show ?thesis by (simp add: create_line_chart_def Inr savefig_def)
qed

lemma create_line_chart_ok:
  "group_loop data [] = Inr g \<Longrightarrow> can_write w path \<Longrightarrow>
   create_line_chart data path w =
     (Inr (), print (''Chart saved to: '' @ path)
                (w\<lparr>nodes := (nodes w)(path \<mapsto> File (Image (draw g)))\<rparr>))"
  by (simp add: create_line_chart_def savefig_def write_file_ok)

lemma create_line_chart_cannot_write:
  "group_loop data [] = Inr g \<Longrightarrow> \<not> can_write w path \<Longrightarrow>
   \<exists>e. create_line_chart data path w = (Inl e, w)"
  using write_file_iff [of path "Image (draw g)" w]
  by (auto simp add: create_line_chart_def savefig_def)

text \<open>Every record of the synthesized sequence can be grouped.\<close>

definition groupable :: "pyval \<Rightarrow> bool" where
  "groupable r \<longleftrightarrow>
     (\<exists>nm c s d pts. getitem r ''individual'' = Inr (PStr nm) \<and> getitem r ''color'' = Inr c
        \<and> getitem r ''date'' = Inr (PStr s) \<and> fromisoformat s = Inr d
        \<and> getitem r ''cumulative_points'' = Inr pts)"

lemma group_loop_groupable:
  "list_all groupable data \<Longrightarrow> \<exists>g. group_loop data d = Inr g"
proof (induction data arbitrary: d)
  case Nil
  show ?case by simp
next
  case (Cons r data)
  from Cons.prems have r: "groupable r" and rest: "list_all groupable data" by simp_all
  from r obtain nm c s dt pts where f:
    "getitem r ''individual'' = Inr (PStr nm)" "getitem r ''color'' = Inr c"
    "getitem r ''date'' = Inr (PStr s)" "fromisoformat s = Inr dt"
    "getitem r ''cumulative_points'' = Inr pts"
    unfolding groupable_def by blast
  show ?case
    using Cons.IH [OF rest] by (simp add: f py_fromisoformat_def)
qed

lemma groupable_expected_record: "w < 12 \<Longrightarrow> groupable (expected_record ind w)"
  by (simp add: groupable_def expected_record_eq fromisoformat_week_isodates)

lemma groupable_synthesized: "list_all groupable synthesized"
  unfolding synthesized_def list_all_iff
  by (auto simp add: groupable_expected_record simp del: upt_Suc)

lemma group_loop_synthesized: "\<exists>g. group_loop synthesized [] = Inr g"
  by (rule group_loop_groupable [OF groupable_synthesized])

lemma dirname_output_dir: "dirname output_dir = []"
  by (simp add: output_dir_def dirname_def rstrip_slashes_def)

lemma chart_path_eq: "chart_path = ''charts/individual_points_line_chart.png''"
  by (simp add: chart_path_def output_dir_def os_path_join_def)

lemma data_path_eq: "data_path = ''charts/point_tracking_data.json''"
  by (simp add: data_path_def output_dir_def os_path_join_def)

lemma dirname_chart_path: "dirname chart_path = output_dir"
  by (simp add: chart_path_eq output_dir_def dirname_def rstrip_slashes_def)

lemma dirname_data_path: "dirname data_path = output_dir"
  by (simp add: data_path_eq output_dir_def dirname_def rstrip_slashes_def)

lemma makedirs_output_dir:
  "makedirs output_dir w =
     (case mkdir output_dir w of
        (Inl e, w2) \<Rightarrow> if nodes w2 output_dir = Some Dir then (Inr (), w2) else (Inl e, w2)
      | (Inr u, w2) \<Rightarrow> (Inr (), w2))"
  by (subst makedirs.simps) (simp add: dirname_output_dir)

lemma mkdir_fail: "mkdir p w = (Inl e, w') \<Longrightarrow> w' = w"
  by (auto simp add: mkdir_def split: if_splits)

lemma mkdir_ok:
  "mkdir p w = (Inr u, w') \<Longrightarrow> w' = w\<lparr>nodes := (nodes w)(p \<mapsto> Dir)\<rparr> \<and> nodes w p = None"
  by (auto simp add: mkdir_def split: if_splits)

lemma makedirs_output_dir_ok:
  assumes "makedirs output_dir w = (Inr u, w')"
  shows "nodes w' output_dir = Some Dir" and "q \<noteq> output_dir \<Longrightarrow> nodes w' q = nodes w q"
    and "stdout w' = stdout w"
proof -
  obtain r w2 where m: "mkdir output_dir w = (r, w2)" by (cases "mkdir output_dir w")
  show "nodes w' output_dir = Some Dir"
    using assms m by (cases r) (auto simp add: makedirs_output_dir split: if_splits dest: mkdir_ok)
  show "q \<noteq> output_dir \<Longrightarrow> nodes w' q = nodes w q"
    using assms m
    by (cases r) (auto simp add: makedirs_output_dir split: if_splits dest: mkdir_ok mkdir_fail)
  show "stdout w' = stdout w"
    using assms m
    by (cases r) (auto simp add: makedirs_output_dir split: if_splits dest: mkdir_ok mkdir_fail)
qed

lemma makedirs_output_dir_fail:
  assumes "makedirs output_dir w = (Inl e, w')"
  shows "w' = w"
proof -
  obtain r w2 where m: "mkdir output_dir w = (r, w2)" by (cases "mkdir output_dir w")
  show ?thesis
    using assms m by (cases r) (auto simp add: makedirs_output_dir split: if_splits dest: mkdir_fail)
qed

lemma save_data_as_json_fail:
  "save_data_as_json data path w = (Inl e, w') \<Longrightarrow> w' = w"
  by (auto simp add: save_data_as_json_def split: sum.splits prod.splits dest: write_file_fail)

lemma main_steps:
  "main w =
     (case makedirs output_dir (print ''Generating individual point tracking chart...'' w) of
        (Inl e, w1) \<Rightarrow> (Inl e, w1)
      | (Inr u, w1) \<Rightarrow>
          (case create_line_chart synthesized chart_path w1 of
             (Inl e, w2) \<Rightarrow> (Inl e, w2)
           | (Inr u, w2) \<Rightarrow>
               (case save_data_as_json synthesized data_path w2 of
                  (Inl e, w3) \<Rightarrow> (Inl e, w3)
                | (Inr u, w3) \<Rightarrow>
                    (Inr (),
                     print (''Data location: '' @ data_path)
                       (print (''Chart location: '' @ chart_path)
                         (print ''Chart generation completed successfully!'' w3))))))"
  by (simp add: main_def generate_sample_data_synthesized)

text \<open>
  Claim C8. \<^verbatim>\<open>main\<close> stops at the first step that fails and returns that step's error:
  a failure of \<^verbatim>\<open>os.makedirs\<close> leaves the file system as it was; a failure of the renderer
  leaves the data file as it was before the run (the exporter is never called); a failure
  of the exporter is the run's error. A run that succeeds has passed all three steps.
\<close>

theorem main_aborts_on_first_error:
  fixes w :: world
  defines "w0 \<equiv> print ''Generating individual point tracking chart...'' w"
  shows "(makedirs output_dir w0 = (Inl e, w1) \<longrightarrow>
            main w = (Inl e, w1) \<and> nodes w1 = nodes w)
       \<and> (makedirs output_dir w0 = (Inr (), w1)
            \<and> create_line_chart synthesized chart_path w1 = (Inl e, w2) \<longrightarrow>
            main w = (Inl e, w2) \<and> nodes w2 data_path = nodes w data_path
            \<and> nodes w2 chart_path = nodes w chart_path)
       \<and> (makedirs output_dir w0 = (Inr (), w1)
            \<and> create_line_chart synthesized chart_path w1 = (Inr (), w2)
            \<and> save_data_as_json synthesized data_path w2 = (Inl e, w3) \<longrightarrow>
            main w = (Inl e, w3) \<and> nodes w3 data_path = nodes w data_path)
       \<and> (main w = (Inr (), w4) \<longrightarrow>
            (\<exists>v1 v2 v3. makedirs output_dir w0 = (Inr (), v1)
               \<and> create_line_chart synthesized chart_path v1 = (Inr (), v2)
               \<and> save_data_as_json synthesized data_path v2 = (Inr (), v3)))"
proof (intro conjI impI)
  assume a: "makedirs output_dir w0 = (Inl e, w1)"
  then show "main w = (Inl e, w1)"
    by (simp add: main_steps w0_def)
  from makedirs_output_dir_fail [OF a] show "nodes w1 = nodes w"
    by (simp add: w0_def)
next
  assume a: "makedirs output_dir w0 = (Inr (), w1)
    \<and> create_line_chart synthesized chart_path w1 = (Inl e, w2)"
  then show "main w = (Inl e, w2)"
    by (simp add: main_steps w0_def)
  from a have w2: "w2 = w1" by (blast dest: create_line_chart_fail)
  have "data_path \<noteq> output_dir" "chart_path \<noteq> output_dir"
    by (simp_all add: data_path_eq chart_path_eq output_dir_def)
  with a show "nodes w2 data_path = nodes w data_path" "nodes w2 chart_path = nodes w chart_path"
    using makedirs_output_dir_ok(2) [of w0 "()" w1] by (simp_all add: w2 w0_def)
next
  assume a: "makedirs output_dir w0 = (Inr (), w1)
    \<and> create_line_chart synthesized chart_path w1 = (Inr (), w2)
    \<and> save_data_as_json synthesized data_path w2 = (Inl e, w3)"
  then show "main w = (Inl e, w3)"
    by (simp add: main_steps w0_def)
  from a have w3: "w3 = w2" by (blast dest: save_data_as_json_fail)
  have ne: "data_path \<noteq> output_dir" "data_path \<noteq> chart_path"
    by (simp_all add: data_path_eq chart_path_eq output_dir_def)
  obtain g where g: "group_loop synthesized [] = Inr g"
    using group_loop_synthesized by blast
  from a have "snd (create_line_chart synthesized chart_path w1) = w2" by simp
  then have "nodes w2 data_path = nodes w1 data_path"
    using write_file_other [OF ne(2), of "Image (draw g)" w1]
    by (auto simp add: create_line_chart_def g savefig_def split: prod.splits sum.splits)
  moreover have "nodes w1 data_path = nodes w data_path"
    using a makedirs_output_dir_ok(2) [of w0 "()" w1] ne by (simp add: w0_def)
  ultimately show "nodes w3 data_path = nodes w data_path"
    by (simp add: w3)
next
  assume a: "main w = (Inr (), w4)"
  then show "\<exists>v1 v2 v3. makedirs output_dir w0 = (Inr (), v1)
               \<and> create_line_chart synthesized chart_path v1 = (Inr (), v2)
               \<and> save_data_as_json synthesized data_path v2 = (Inr (), v3)"
    by (auto simp add: main_steps w0_def split: prod.splits sum.splits)
qed

definition world_of :: "(string \<times> node) list \<Rightarrow> world" where
  "world_of entries = \<lparr>nodes = map_of entries, readonly = {}, stdout = []\<rparr>"

lemma can_write_chart_path:
  "nodes w output_dir = Some Dir \<Longrightarrow> nodes w chart_path = None \<Longrightarrow> output_dir \<notin> readonly w
   \<Longrightarrow> can_write w chart_path"
  by (simp add: can_write_def dirname_chart_path is_dir_def) (simp add: chart_path_eq)

lemma can_write_data_path:
  "nodes w output_dir = Some Dir \<Longrightarrow> nodes w data_path = None \<Longrightarrow> output_dir \<notin> readonly w
   \<Longrightarrow> can_write w data_path"
  by (simp add: can_write_def dirname_data_path is_dir_def) (simp add: data_path_eq)

lemma paths_distinct:
  "chart_path \<noteq> output_dir" "data_path \<noteq> output_dir" "data_path \<noteq> chart_path"
  "output_dir \<noteq> []"
  by (simp_all add: chart_path_eq data_path_eq output_dir_def)

lemma makedirs_fresh:
  "nodes w output_dir = None \<Longrightarrow> [] \<notin> readonly w \<Longrightarrow>
   makedirs output_dir w = (Inr (), w\<lparr>nodes := (nodes w)(output_dir \<mapsto> Dir)\<rparr>)"
  by (simp add: makedirs_output_dir mkdir_def dirname_output_dir is_dir_def paths_distinct)

lemma makedirs_existing:
  "nodes w output_dir = Some Dir \<Longrightarrow> makedirs output_dir w = (Inr (), w)"
  by (simp add: makedirs_output_dir mkdir_def paths_distinct)

lemma makedirs_on_file:
  "nodes w output_dir = Some (File c) \<Longrightarrow> makedirs output_dir w = (Inl FileExistsError, w)"
  by (simp add: makedirs_output_dir mkdir_def paths_distinct)

theorem main_aborts_on_first_error_witness:
  "main (world_of [(output_dir, File (Text []))])
     = (Inl FileExistsError,
        print ''Generating individual point tracking chart...''
          (world_of [(output_dir, File (Text []))]))
   \<and> main (world_of [(output_dir, Dir), (chart_path, Dir)])
     = (Inl IsADirectoryError,
        print ''Generating individual point tracking chart...''
          (world_of [(output_dir, Dir), (chart_path, Dir)]))
   \<and> nodes (snd (main (world_of [(output_dir, Dir), (chart_path, Dir)]))) data_path = None
   \<and> fst (main (world_of [(output_dir, Dir), (data_path, Dir)])) = Inl IsADirectoryError
   \<and> fst (main (world_of [])) = Inr ()"
proof -
  let ?p = "print ''Generating individual point tracking chart...''"
  obtain g where g: "group_loop synthesized [] = Inr g"
    using group_loop_synthesized by blast
  note ne = paths_distinct paths_distinct [symmetric]
  \<comment> \<open>the directory name is taken by a file\<close>
  let ?w1 = "world_of [(output_dir, File (Text []))]"
  have "makedirs output_dir (?p ?w1) = (Inl FileExistsError, ?p ?w1)"
    by (rule makedirs_on_file) (simp add: world_of_def)
  with main_aborts_on_first_error [of ?w1 FileExistsError "?p ?w1"]
  have c1: "main ?w1 = (Inl FileExistsError, ?p ?w1)" by simp
  \<comment> \<open>the chart path is a directory\<close>
  let ?w2 = "world_of [(output_dir, Dir), (chart_path, Dir)]"
  have m2: "makedirs output_dir (?p ?w2) = (Inr (), ?p ?w2)"
    by (rule makedirs_existing) (simp add: world_of_def)
  have r2: "create_line_chart synthesized chart_path (?p ?w2) = (Inl IsADirectoryError, ?p ?w2)"
    by (simp add: create_line_chart_def g savefig_def write_file_def world_of_def ne)
       (simp add: chart_path_eq)
  from main_aborts_on_first_error [of ?w2 IsADirectoryError "?p ?w2" "?p ?w2"] m2 r2
  have c2: "main ?w2 = (Inl IsADirectoryError, ?p ?w2)" by simp
  have c2': "nodes (snd (main ?w2)) data_path = None"
    unfolding c2 by (simp add: world_of_def ne)
  \<comment> \<open>the data path is a directory\<close>
  let ?w3 = "world_of [(output_dir, Dir), (data_path, Dir)]"
  let ?v3 = "print (''Chart saved to: '' @ chart_path)
               ((?p ?w3)\<lparr>nodes := (nodes (?p ?w3))(chart_path \<mapsto> File (Image (draw g)))\<rparr>)"
  have m3: "makedirs output_dir (?p ?w3) = (Inr (), ?p ?w3)"
    by (rule makedirs_existing) (simp add: world_of_def)
  have "can_write (?p ?w3) chart_path"
    by (rule can_write_chart_path) (simp_all add: world_of_def ne)
  then have r3: "create_line_chart synthesized chart_path (?p ?w3) = (Inr (), ?v3)"
    by (rule create_line_chart_ok [OF g])
  have s3: "save_data_as_json synthesized data_path ?v3 = (Inl IsADirectoryError, ?v3)"
    by (simp add: save_data_as_json_def write_file_def world_of_def ne)
       (simp add: data_path_eq)
  from main_aborts_on_first_error [of ?w3 IsADirectoryError "?p ?w3" ?v3 ?v3] m3 r3 s3
  have c3: "fst (main ?w3) = Inl IsADirectoryError" by simp
  \<comment> \<open>nothing in the way\<close>
  let ?w4 = "world_of []"
  let ?u1 = "(?p ?w4)\<lparr>nodes := (nodes (?p ?w4))(output_dir \<mapsto> Dir)\<rparr>"
  let ?u2 = "print (''Chart saved to: '' @ chart_path)
               (?u1\<lparr>nodes := (nodes ?u1)(chart_path \<mapsto> File (Image (draw g)))\<rparr>)"
  have m4: "makedirs output_dir (?p ?w4) = (Inr (), ?u1)"
    by (rule makedirs_fresh) (simp_all add: world_of_def)
  have "can_write ?u1 chart_path"
    by (rule can_write_chart_path) (simp_all add: world_of_def ne)
  then have r4: "create_line_chart synthesized chart_path ?u1 = (Inr (), ?u2)"
    by (rule create_line_chart_ok [OF g])
  have "can_write ?u2 data_path"
    by (rule can_write_data_path) (simp_all add: world_of_def ne)
  then have s4: "fst (save_data_as_json synthesized data_path ?u2) = Inr ()"
    by (simp add: save_data_as_json_def write_file_ok)
  have c4: "fst (main ?w4) = Inr ()"
  proof (cases "main ?w4")
    case (Pair r v)
    show ?thesis
    proof (cases r)
      case (Inr u)
      with Pair show ?thesis by simp
    next
      case (Inl e)
      with Pair have "main ?w4 = (Inl e, v)" by simp
      with m4 r4 s4 show ?thesis
        by (auto simp add: main_steps split: prod.splits sum.splits)
    qed
  qed
  show ?thesis
    using c1 c2 c2' c3 c4 by simp
qed

text \<open>
  Claim C7, as stated, fails: on the synthesized records and the script's own chart path,
  in a world where the directory \<^verbatim>\<open>charts\<close> does not exist, the renderer raises
  \<^verbatim>\<open>FileNotFoundError\<close>; it creates neither the directory nor the file.
\<close>

theorem renderer_creates_no_directory_counterexample:
  "generate_sample_data = Inr synthesized
   \<and> \<not> is_dir (world_of []) (dirname chart_path)
   \<and> create_line_chart synthesized chart_path (world_of [])
       = (Inl FileNotFoundError, world_of [])
   \<and> nodes (snd (create_line_chart synthesized chart_path (world_of []))) output_dir = None
   \<and> nodes (snd (create_line_chart synthesized chart_path (world_of []))) chart_path = None"
proof -
  obtain g where g: "group_loop synthesized [] = Inr g"
    using group_loop_synthesized by blast
  have nd: "\<not> is_dir (world_of []) (dirname chart_path)"
    by (simp add: is_dir_def dirname_chart_path paths_distinct world_of_def)
  have r: "create_line_chart synthesized chart_path (world_of [])
       = (Inl FileNotFoundError, world_of [])"
    using nd
    by (simp add: create_line_chart_def g savefig_def write_file_def parent_error_def
        path_exists_def dirname_chart_path paths_distinct world_of_def)
  show ?thesis
    using generate_sample_data_synthesized nd
    unfolding r by (simp add: world_of_def)
qed

text \<open>
  Claim C7, amended. Given records it can group, the renderer writes the image to the
  output path when that path can be written, which needs the path's directory to exist.
  It never creates a directory: when the directory of the path does not exist it fails and
  leaves the world as it was. The directory of the script's chart path exists after
  \<^verbatim>\<open>os.makedirs\<close> in \<^verbatim>\<open>main\<close> has succeeded.
\<close>

theorem create_line_chart_writes_image:
  assumes "group_loop data [] = Inr g"
  shows "(can_write w path \<longrightarrow>
            create_line_chart data path w =
              (Inr (), print (''Chart saved to: '' @ path)
                         (w\<lparr>nodes := (nodes w)(path \<mapsto> File (Image (draw g)))\<rparr>)))
       \<and> (\<not> is_dir w (dirname path) \<longrightarrow> (\<exists>e. create_line_chart data path w = (Inl e, w)))
       \<and> (\<forall>q. (nodes (snd (create_line_chart data path w)) q = Some Dir) = (nodes w q = Some Dir))
       \<and> (\<forall>u w1. makedirs output_dir w = (Inr u, w1) \<longrightarrow> is_dir w1 (dirname chart_path))"
proof (intro conjI impI allI)
  assume "can_write w path"
  then show "create_line_chart data path w =
      (Inr (), print (''Chart saved to: '' @ path)
                 (w\<lparr>nodes := (nodes w)(path \<mapsto> File (Image (draw g)))\<rparr>))"
    by (rule create_line_chart_ok [OF assms])
next
  assume "\<not> is_dir w (dirname path)"
  then show "\<exists>e. create_line_chart data path w = (Inl e, w)"
    by (rule create_line_chart_no_parent)
next
  fix q
  show "(nodes (snd (create_line_chart data path w)) q = Some Dir) = (nodes w q = Some Dir)"
    by (rule create_line_chart_dirs)
next
  fix u w1
  assume "makedirs output_dir w = (Inr u, w1)"
  then show "is_dir w1 (dirname chart_path)"
    by (simp add: is_dir_def dirname_chart_path makedirs_output_dir_ok(1))
qed

theorem create_line_chart_writes_image_witness:
  "(\<exists>g. group_loop synthesized [] = Inr g
      \<and> create_line_chart synthesized chart_path (world_of [(output_dir, Dir)])
          = (Inr (), print (''Chart saved to: '' @ chart_path)
               ((world_of [(output_dir, Dir)])
                  \<lparr>nodes := (nodes (world_of [(output_dir, Dir)]))
                     (chart_path \<mapsto> File (Image (draw g)))\<rparr>)))
   \<and> (\<exists>e. create_line_chart synthesized chart_path (world_of []) = (Inl e, world_of []))
   \<and> is_dir (snd (makedirs output_dir (world_of []))) (dirname chart_path)"
proof -
  obtain g where g: "group_loop synthesized [] = Inr g"
    using group_loop_synthesized by blast
  note ne = paths_distinct paths_distinct [symmetric]
  have cw: "can_write (world_of [(output_dir, Dir)]) chart_path"
    by (rule can_write_chart_path) (simp_all add: world_of_def ne)
  have nd: "\<not> is_dir (world_of []) (dirname chart_path)"
    by (simp add: is_dir_def dirname_chart_path paths_distinct world_of_def)
  have mk: "makedirs output_dir (world_of [])
      = (Inr (), (world_of [])\<lparr>nodes := (nodes (world_of []))(output_dir \<mapsto> Dir)\<rparr>)"
    by (rule makedirs_fresh) (simp_all add: world_of_def)
  from create_line_chart_writes_image [OF g, of "world_of [(output_dir, Dir)]" chart_path] cw
  have a: "create_line_chart synthesized chart_path (world_of [(output_dir, Dir)])
          = (Inr (), print (''Chart saved to: '' @ chart_path)
               ((world_of [(output_dir, Dir)])
                  \<lparr>nodes := (nodes (world_of [(output_dir, Dir)]))
                     (chart_path \<mapsto> File (Image (draw g)))\<rparr>))"
    by blast
  from create_line_chart_writes_image [OF g, of "world_of []" chart_path] nd
  have b: "\<exists>e. create_line_chart synthesized chart_path (world_of []) = (Inl e, world_of [])"
    by blast
  from create_line_chart_writes_image [OF g, of "world_of []"] mk
  have c: "is_dir (snd (makedirs output_dir (world_of []))) (dirname chart_path)"
    by simp
  show ?thesis
    using g a b c by blast
qed



section \<open>The JSON decoder\<close>

text \<open>
  \<^verbatim>\<open>json.loads\<close>, after the scanner and decoder of the standard library: the scanner
  looks at the first character of the rest of the text and hands over to the string,
  object or array decoder or matches a literal or a number. The functions take the rest of
  the text instead of an index into it. A number with a fraction or an exponent (and
  \<^verbatim>\<open>NaN\<close>, \<^verbatim>\<open>Infinity\<close>) is a float, and an escape \<^verbatim>\<open>\uXXXX\<close> above 255 is a character
  that a \<^typ>\<open>char\<close> does not have: the model stops at both. The fuel bounds the chain of
  calls; the text's length is taken for it.
\<close>

datatype json_error =
    ExpectingValue
  | UnterminatedString
  | InvalidControlCharacter
  | InvalidEscape
  | ExpectingPropertyName
  | ExpectingColon
  | ExpectingComma
  | ExtraData
  | FloatNotModelled
  | CharNotModelled
  | OutOfFuel

definition is_ws :: "char \<Rightarrow> bool" where
  "is_ws c \<longleftrightarrow> c = CHR '' '' \<or> c = CHR 0x09 \<or> c = CHR 0x0A \<or> c = CHR 0x0D"

definition skip_ws :: "string \<Rightarrow> string" where
  "skip_ws s = dropWhile is_ws s"

definition BACKSLASH :: "char \<Rightarrow> char option" where
  "BACKSLASH esc =
     (if esc = CHR 0x22 then Some (CHR 0x22)
      else if esc = CHR 0x5C then Some (CHR 0x5C)
      else if esc = CHR ''/'' then Some CHR ''/''
      else if esc = CHR ''b'' then Some (CHR 0x08)
      else if esc = CHR ''f'' then Some (CHR 0x0C)
      else if esc = CHR ''n'' then Some (CHR 0x0A)
      else if esc = CHR ''r'' then Some (CHR 0x0D)
      else if esc = CHR ''t'' then Some (CHR 0x09)
      else None)"

definition hex_val :: "char \<Rightarrow> nat option" where
  "hex_val c =
     (case index_of c ''0123456789abcdef'' of
        Some d \<Rightarrow> Some d
      | None \<Rightarrow> map_option (\<lambda>d. d + 10) (index_of c ''ABCDEF''))"

definition decode_uXXXX :: "string \<Rightarrow> nat option" where
  "decode_uXXXX s =
     (case map hex_val (take 4 s) of
        [Some a, Some b, Some c, Some d] \<Rightarrow> Some (((a * 16 + b) * 16 + c) * 16 + d)
      | _ \<Rightarrow> None)"

text \<open>The string decoder, entered after the opening quote: it copies up to the closing
  quote, resolves the escapes and refuses a raw control character.\<close>

fun scanstring :: "string \<Rightarrow> string \<Rightarrow> json_error + (string \<times> string)" where
  "scanstring chunks [] = Inl UnterminatedString"
| "scanstring chunks (c # cs) =
     (if c = CHR 0x22 then Inr (chunks, cs)
      else if c = CHR 0x5C
      then (case cs of
              [] \<Rightarrow> Inl UnterminatedString
            | esc # rest \<Rightarrow>
                if esc = CHR ''u''
                then (case decode_uXXXX rest of
                        None \<Rightarrow> Inl InvalidEscape
                      | Some uni \<Rightarrow>
                          if uni < 256 then scanstring (chunks @ [char_of uni]) (drop 4 rest)
                          else Inl CharNotModelled)
                else (case BACKSLASH esc of
                        None \<Rightarrow> Inl InvalidEscape
                      | Some ch \<Rightarrow> scanstring (chunks @ [ch]) rest))
      else if (of_char c :: nat) < 32 then Inl InvalidControlCharacter
      else scanstring (chunks @ [c]) cs)"

text \<open>The number pattern: an optional minus, then \<^verbatim>\<open>0\<close> or a digit from 1 to 9 and more
  digits; then, each optional, a point with digits and an exponent.\<close>

definition match_integer :: "string \<Rightarrow> (string \<times> string) option" where
  "match_integer s =
     (let sign = (if s \<noteq> [] \<and> hd s = CHR ''-'' then ''-'' else []);
          t = drop (length sign) s
      in case t of
           [] \<Rightarrow> None
         | c # cs \<Rightarrow>
             if c = CHR ''0'' then Some (sign @ [c], cs)
             else if is_digit c then Some (sign @ c # takeWhile is_digit cs, dropWhile is_digit cs)
             else None)"

definition match_frac :: "string \<Rightarrow> string \<times> string" where
  "match_frac s =
     (case s of
        c # d # cs \<Rightarrow>
          if c = CHR ''.'' \<and> is_digit d
          then (c # d # takeWhile is_digit cs, dropWhile is_digit cs) else ([], s)
      | _ \<Rightarrow> ([], s))"

definition match_exp :: "string \<Rightarrow> string \<times> string" where
  "match_exp s =
     (case s of
        [] \<Rightarrow> ([], s)
      | c # cs \<Rightarrow>
          if c = CHR ''e'' \<or> c = CHR ''E''
          then (let sign = (if cs \<noteq> [] \<and> (hd cs = CHR ''-'' \<or> hd cs = CHR ''+'') then [hd cs] else []);
                    t = drop (length sign) cs
                in if t \<noteq> [] \<and> is_digit (hd t)
                   then (c # sign @ takeWhile is_digit t, dropWhile is_digit t) else ([], s))
          else ([], s))"

definition digits_value :: "string \<Rightarrow> nat" where
  "digits_value ds = foldl (\<lambda>acc c. 10 * acc + (case digit_val c of Some d \<Rightarrow> d | None \<Rightarrow> 0)) 0 ds"

definition parse_int :: "string \<Rightarrow> int" where
  "parse_int txt =
     (if txt \<noteq> [] \<and> hd txt = CHR ''-'' then - int (digits_value (tl txt))
      else int (digits_value txt))"

definition match_number :: "string \<Rightarrow> (json_error + pyval \<times> string) option" where
  "match_number s =
     (case match_integer s of
        None \<Rightarrow> None
      | Some (integer, r1) \<Rightarrow>
          (case match_frac r1 of (frac, r2) \<Rightarrow>
             (case match_exp r2 of (exp, r3) \<Rightarrow>
                if frac \<noteq> [] \<or> exp \<noteq> [] then Some (Inl FloatNotModelled)
                else Some (Inr (PInt (parse_int integer), r3)))))"

text \<open>\<^verbatim>\<open>dict(pairs)\<close>: a key that comes again keeps its place and takes the later value.\<close>

fun dict_set :: "string \<Rightarrow> pyval \<Rightarrow> (string \<times> pyval) list \<Rightarrow> (string \<times> pyval) list" where
  "dict_set k v [] = [(k, v)]"
| "dict_set k v ((k', v') # d) = (if k' = k then (k', v) # d else (k', v') # dict_set k v d)"

definition dict_of_pairs :: "(string \<times> pyval) list \<Rightarrow> (string \<times> pyval) list" where
  "dict_of_pairs pairs = fold (\<lambda>(k, v) d. dict_set k v d) pairs []"

definition starts_with :: "string \<Rightarrow> string \<Rightarrow> bool" where
  "starts_with p s \<longleftrightarrow> take (length p) s = p"

fun scan_once :: "nat \<Rightarrow> string \<Rightarrow> json_error + (pyval \<times> string)"
  and JSONArray :: "nat \<Rightarrow> pyval list \<Rightarrow> string \<Rightarrow> json_error + (pyval \<times> string)"
  and JSONObject :: "nat \<Rightarrow> (string \<times> pyval) list \<Rightarrow> string \<Rightarrow> json_error + (pyval \<times> string)"
where
  "scan_once 0 s = Inl OutOfFuel"
| "scan_once (Suc n) [] = Inl ExpectingValue"
| "scan_once (Suc n) (c # cs) =
     (if c = CHR 0x22
      then (case scanstring [] cs of Inl e \<Rightarrow> Inl e | Inr (str, rest) \<Rightarrow> Inr (PStr str, rest))
      else if c = CHR ''{''
      then (case skip_ws cs of
              [] \<Rightarrow> Inl ExpectingPropertyName
            | d # ds \<Rightarrow>
                if d = CHR ''}'' then Inr (PDict [], ds)
                else if d = CHR 0x22 then JSONObject n [] ds
                else Inl ExpectingPropertyName)
      else if c = CHR ''[''
      then (case skip_ws cs of
              [] \<Rightarrow> Inl ExpectingValue
            | d # ds \<Rightarrow> if d = CHR '']'' then Inr (PList [], ds) else JSONArray n [] (d # ds))
      else if starts_with ''null'' (c # cs) then Inr (PNone, drop 4 (c # cs))
      else if starts_with ''true'' (c # cs) then Inr (PBool True, drop 4 (c # cs))
      else if starts_with ''false'' (c # cs) then Inr (PBool False, drop 5 (c # cs))
      else (case match_number (c # cs) of
              Some r \<Rightarrow> r
            | None \<Rightarrow>
                if starts_with ''NaN'' (c # cs) \<or> starts_with ''Infinity'' (c # cs)
                   \<or> starts_with ''-Infinity'' (c # cs)
                then Inl FloatNotModelled else Inl ExpectingValue))"
| "JSONArray 0 values s = Inl OutOfFuel"
| "JSONArray (Suc n) values s =
     (case scan_once n s of
        Inl e \<Rightarrow> Inl e
      | Inr (v, rest) \<Rightarrow>
          (case skip_ws rest of
             [] \<Rightarrow> Inl ExpectingComma
           | d # ds \<Rightarrow>
               if d = CHR '']'' then Inr (PList (values @ [v]), ds)
               else if d = CHR '','' then JSONArray n (values @ [v]) (skip_ws ds)
               else Inl ExpectingComma))"
| "JSONObject 0 pairs s = Inl OutOfFuel"
| "JSONObject (Suc n) pairs s =
     (case scanstring [] s of
        Inl e \<Rightarrow> Inl e
      | Inr (key, rest) \<Rightarrow>
          (case skip_ws rest of
             [] \<Rightarrow> Inl ExpectingColon
           | d # ds \<Rightarrow>
               if d \<noteq> CHR '':'' then Inl ExpectingColon
               else
                 (case scan_once n (skip_ws ds) of
                    Inl e \<Rightarrow> Inl e
                  | Inr (v, rest') \<Rightarrow>
                      (case skip_ws rest' of
                         [] \<Rightarrow> Inl ExpectingComma
                       | d' # ds' \<Rightarrow>
                           if d' = CHR ''}''
                           then Inr (PDict (dict_of_pairs (pairs @ [(key, v)])), ds')
                           else if d' = CHR '',''
                           then (case skip_ws ds' of
                                   [] \<Rightarrow> Inl ExpectingPropertyName
                                 | q # qs \<Rightarrow>
                                     if q = CHR 0x22 then JSONObject n (pairs @ [(key, v)]) qs
                                     else Inl ExpectingPropertyName)
                           else Inl ExpectingComma))))"

definition json_loads :: "string \<Rightarrow> json_error + pyval" where
  "json_loads s =
     (case scan_once (Suc (length s)) (skip_ws s) of
        Inl e \<Rightarrow> Inl e
      | Inr (obj, rest) \<Rightarrow> if skip_ws rest = [] then Inr obj else Inl ExtraData)"

section \<open>Encoding and decoding again\<close>

text \<open>A character that the encoder copies and the string decoder copies back.\<close>

definition plain :: "char \<Rightarrow> bool" where
  "plain c \<longleftrightarrow>
     c \<noteq> CHR 0x22 \<and> c \<noteq> CHR 0x5C \<and> 32 \<le> (of_char c :: nat) \<and> (of_char c :: nat) \<le> 126"

text \<open>What may follow a value in the encoder's output: the end, a comma or a line break.\<close>

definition delim :: "string \<Rightarrow> bool" where
  "delim rest \<longleftrightarrow> rest = [] \<or> hd rest = CHR '','' \<or> hd rest = CHR 0x0A"

lemma escape_char_plain: "plain c \<Longrightarrow> escape_char c = [c]"
  by (auto simp add: plain_def escape_char_def)

lemma encode_basestring_ascii_plain:
  "list_all plain s \<Longrightarrow> encode_basestring_ascii s = CHR 0x22 # s @ [CHR 0x22]"
proof -
  assume "list_all plain s"
  then have "concat (map escape_char s) = s"
    by (induction s) (simp_all add: escape_char_plain)
  then show ?thesis by (simp add: encode_basestring_ascii_def)
qed

lemma scanstring_plain:
  "list_all plain s \<Longrightarrow> scanstring chunks (s @ CHR 0x22 # rest) = Inr (chunks @ s, rest)"
proof (induction s arbitrary: chunks)
  case Nil
  show ?case by simp
next
  case (Cons c s)
  then have c: "plain c" and s: "list_all plain s" by simp_all
  from c have "c \<noteq> CHR 0x22" "c \<noteq> CHR 0x5C" "\<not> (of_char c :: nat) < 32"
    by (simp_all add: plain_def)
  then show ?case
    by (simp add: Cons.IH [OF s])
qed

lemma digit_cases: "d < 10 \<Longrightarrow> d \<in> {0, 1, 2, 3, 4, 5, 6, 7, 8, 9 :: nat}"
  by auto

lemma digit_char_props:
  assumes "d < 10"
  shows "is_digit (digit_char d)" and "digit_val (digit_char d) = Some d"
    and "digit_char d = CHR ''0'' \<longleftrightarrow> d = 0"
  using digit_cases [OF assms]
  by (auto simp add: is_digit_def digit_char_def digit_val_def)

lemma dec_nonempty: "dec n \<noteq> []"
  by (subst dec.simps) simp

lemma dec_digits: "list_all is_digit (dec n)"
proof (induction n rule: dec.induct)
  case (1 n)
  show ?case
  proof (cases "n < 10")
    case True
    then show ?thesis by (subst dec.simps) (simp add: digit_char_props)
  next
    case False
    with 1 show ?thesis by (subst dec.simps) (simp add: digit_char_props)
  qed
qed

lemma dec_hd: "0 < n \<Longrightarrow> hd (dec n) \<noteq> CHR ''0''"
proof (induction n rule: dec.induct)
  case (1 n)
  show ?case
  proof (cases "n < 10")
    case True
    with 1 show ?thesis by (subst dec.simps) (simp add: digit_char_props)
  next
    case False
    then have "0 < n div 10" by simp
    with 1 False have "hd (dec (n div 10)) \<noteq> CHR ''0''" by simp
    with False show ?thesis
      by (subst dec.simps) (simp add: dec_nonempty)
  qed
qed

lemma digits_value_snoc:
  "digits_value (ds @ [c]) = 10 * digits_value ds + (case digit_val c of Some d \<Rightarrow> d | None \<Rightarrow> 0)"
  by (simp add: digits_value_def)

lemma digits_value_dec: "digits_value (dec n) = n"
proof (induction n rule: dec.induct)
  case (1 n)
  show ?case
  proof (cases "n < 10")
    case True
    then show ?thesis
      by (subst dec.simps) (simp add: digits_value_def digit_char_props)
  next
    case False
    with 1 have "digits_value (dec (n div 10)) = n div 10" by simp
    with False show ?thesis
      by (subst dec.simps) (simp add: digits_value_snoc digit_char_props)
  qed
qed

lemma delim_not_digit: "delim rest \<Longrightarrow> rest = [] \<or> \<not> is_digit (hd rest)"
  by (auto simp add: delim_def is_digit_def)

lemma takeWhile_digits:
  "list_all is_digit ds \<Longrightarrow> rest = [] \<or> \<not> is_digit (hd rest) \<Longrightarrow>
   takeWhile is_digit (ds @ rest) = ds \<and> dropWhile is_digit (ds @ rest) = rest"
  by (induction ds) (cases rest; auto)+

lemma match_integer_dec:
  assumes "delim rest"
  shows "match_integer (dec n @ rest) = Some (dec n, rest)"
proof -
  obtain c cs where d: "dec n = c # cs"
    using dec_nonempty [of n] by (cases "dec n") auto
  have digs: "is_digit c" "list_all is_digit cs"
    using dec_digits [of n] by (simp_all add: d)
  have nm: "c \<noteq> CHR ''-''"
    using digs(1) by (auto simp add: is_digit_def)
  show ?thesis
  proof (cases "n = 0")
    case True
    then have "dec n = ''0''" by (subst dec.simps) (simp add: digit_char_def)
    then show ?thesis by (simp add: match_integer_def)
  next
    case False
    then have "c \<noteq> CHR ''0''" using dec_hd [of n] by (simp add: d)
    then show ?thesis
      using nm digs takeWhile_digits [OF digs(2) delim_not_digit [OF assms]]
      by (simp add: match_integer_def d)
  qed
qed

lemma match_integer_int_repr:
  assumes "delim rest"
  shows "match_integer (int_repr i @ rest) = Some (int_repr i, rest)"
proof (cases "i < 0")
  case False
  then show ?thesis
    by (simp add: int_repr_def match_integer_dec [OF assms])
next
  case True
  then have pos: "0 < nat (- i)" by simp
  obtain c cs where d: "dec (nat (- i)) = c # cs"
    using dec_nonempty [of "nat (- i)"] by (cases "dec (nat (- i))") auto
  have digs: "is_digit c" "list_all is_digit cs"
    using dec_digits [of "nat (- i)"] by (simp_all add: d)
  have "c \<noteq> CHR ''0''" using dec_hd [OF pos] by (simp add: d)
  then show ?thesis
    using True digs takeWhile_digits [OF digs(2) delim_not_digit [OF assms]]
    by (simp add: int_repr_def match_integer_def d)
qed

lemma parse_int_int_repr: "parse_int (int_repr i) = i"
proof (cases "i < 0")
  case True
  then show ?thesis
    by (simp add: parse_int_def int_repr_def digits_value_dec)
next
  case False
  obtain c cs where d: "dec (nat i) = c # cs"
    using dec_nonempty [of "nat i"] by (cases "dec (nat i)") auto
  have "is_digit c" using dec_digits [of "nat i"] by (simp add: d)
  then have "c \<noteq> CHR ''-''" by (auto simp add: is_digit_def)
  then have "parse_int (dec (nat i)) = int (digits_value (dec (nat i)))"
    by (simp add: parse_int_def d)
  with False show ?thesis
    by (simp add: int_repr_def digits_value_dec)
qed

lemma match_frac_delim: "delim rest \<Longrightarrow> match_frac rest = ([], rest)"
  by (auto simp add: delim_def match_frac_def split: list.splits)

lemma match_exp_delim: "delim rest \<Longrightarrow> match_exp rest = ([], rest)"
  by (auto simp add: delim_def match_exp_def split: list.splits)

lemma match_number_int_repr:
  "delim rest \<Longrightarrow> match_number (int_repr i @ rest) = Some (Inr (PInt i, rest))"
  by (simp add: match_number_def match_integer_int_repr match_frac_delim match_exp_delim
      parse_int_int_repr)

text \<open>The values of the exported records: plain strings and integers under plain keys.\<close>

fun atom :: "pyval \<Rightarrow> bool" where
  "atom (PStr s) = list_all plain s"
| "atom (PInt i) = True"
| "atom v = False"

definition flat_pair :: "string \<times> pyval \<Rightarrow> bool" where
  "flat_pair kv \<longleftrightarrow> list_all plain (fst kv) \<and> atom (snd kv)"

fun flat_record :: "pyval \<Rightarrow> bool" where
  "flat_record (PDict kvs) \<longleftrightarrow> kvs \<noteq> [] \<and> distinct (map fst kvs) \<and> list_all flat_pair kvs"
| "flat_record v \<longleftrightarrow> False"

lemma skip_ws_simps [simp]:
  "skip_ws [] = []"
  "is_ws c \<Longrightarrow> skip_ws (c # s) = skip_ws s"
  "\<not> is_ws c \<Longrightarrow> skip_ws (c # s) = c # s"
  by (simp_all add: skip_ws_def)

lemma is_ws_simps [simp]:
  "is_ws CHR '' ''" "is_ws (CHR 0x0A)"
  "\<not> is_ws CHR '':''" "\<not> is_ws CHR '',''" "\<not> is_ws CHR ''}''" "\<not> is_ws CHR '']''"
  "\<not> is_ws CHR ''{''" "\<not> is_ws CHR ''[''" "\<not> is_ws (CHR 0x22)"
  by (simp_all add: is_ws_def)

lemma skip_ws_spaces: "skip_ws (replicate k CHR '' '' @ s) = skip_ws s"
  by (induction k) simp_all

lemma skip_ws_newline_indent: "skip_ws (newline_indent l @ s) = skip_ws s"
  by (simp add: newline_indent_def skip_ws_spaces)

lemma delim_simps [simp]:
  "delim (newline_indent l @ s)" "delim (CHR '','' # s)" "delim []"
  by (simp_all add: delim_def newline_indent_def)

lemma int_repr_hd: "\<exists>c cs. int_repr i = c # cs \<and> (c = CHR ''-'' \<or> is_digit c)"
proof (cases "i < 0")
  case True
  then show ?thesis by (simp add: int_repr_def)
next
  case False
  obtain c cs where d: "dec (nat i) = c # cs"
    using dec_nonempty [of "nat i"] by (cases "dec (nat i)") auto
  have "is_digit c" using dec_digits [of "nat i"] by (simp add: d)
  with False d show ?thesis by (simp add: int_repr_def)
qed

lemma scan_once_atom:
  assumes "atom v" and "delim rest"
  shows "scan_once (Suc n) (iterencode lvl v @ rest) = Inr (v, rest)"
proof (cases v)
  case (PStr s)
  with assms(1) have "list_all plain s" by simp
  then show ?thesis
    by (simp add: PStr encode_basestring_ascii_plain scanstring_plain)
next
  case (PInt i)
  obtain c cs where r: "int_repr i = c # cs" and c: "c = CHR ''-'' \<or> is_digit c"
    using int_repr_hd by blast
  from c have ne: "c \<noteq> CHR 0x22" "c \<noteq> CHR ''{''" "c \<noteq> CHR ''[''"
    "c \<noteq> CHR ''n''" "c \<noteq> CHR ''t''" "c \<noteq> CHR ''f''"
    by (auto simp add: is_digit_def)
  have "scan_once (Suc n) (c # (cs @ rest)) = Inr (PInt i, rest)"
    using match_number_int_repr [OF assms(2), of i] ne
    by (simp add: r starts_with_def)
  then show ?thesis by (simp add: PInt r)
qed (use assms(1) in simp_all)

lemma skip_ws_atom: "atom v \<Longrightarrow> skip_ws (iterencode lvl v @ s) = iterencode lvl v @ s"
proof (cases v)
  case (PStr x)
  then show ?thesis by (simp add: encode_basestring_ascii_def)
next
  case (PInt i)
  obtain c cs where r: "int_repr i = c # cs" and c: "c = CHR ''-'' \<or> is_digit c"
    using int_repr_hd by blast
  from c have "\<not> is_ws c" by (auto simp add: is_digit_def is_ws_def)
  then show ?thesis by (simp add: PInt r)
qed simp_all

lemma iterencode_dict_Cons:
  "iterencode_dict lvl ((k, v) # kvs) =
     encode_basestring_ascii k @ '': '' @ iterencode lvl v
     @ (if kvs = [] then [] else '','' @ newline_indent lvl @ iterencode_dict lvl kvs)"
  by (cases kvs) simp_all

lemma iterencode_dict_hd:
  "kvs \<noteq> [] \<Longrightarrow> iterencode_dict lvl kvs = CHR 0x22 # tl (iterencode_dict lvl kvs)"
  by (cases kvs) (auto simp add: iterencode_dict_Cons encode_basestring_ascii_def)

lemma JSONObject_loop:
  assumes "list_all flat_pair kvs" and "kvs \<noteq> []" and "length kvs < n"
  shows "JSONObject n pairs (tl (iterencode_dict lvl kvs) @ newline_indent l' @ CHR ''}'' # rest)
         = Inr (PDict (dict_of_pairs (pairs @ kvs)), rest)"
  using assms
proof (induction kvs arbitrary: pairs n)
  case Nil
  then show ?case by simp
next
  case (Cons kv kvs)
  obtain k v where kv: "kv = (k, v)" by (cases kv)
  from Cons.prems(1) have "flat_pair (k, v)" and rest: "list_all flat_pair kvs"
    by (simp_all add: kv)
  then have k: "list_all plain k" and v: "atom v"
    by (simp_all add: flat_pair_def)
  from Cons.prems(3) obtain m where n: "n = Suc (Suc m)" and m: "length kvs < Suc m"
    by (cases n; cases "n - 1") auto
  let ?end = "newline_indent l' @ CHR ''}'' # rest"
  define T where
    "T = (if kvs = [] then [] else '','' @ newline_indent lvl @ iterencode_dict lvl kvs) @ ?end"
  have enc: "tl (iterencode_dict lvl (kv # kvs)) @ ?end
             = k @ CHR 0x22 # CHR '':'' # CHR '' '' # (iterencode lvl v @ T)"
    by (simp add: T_def kv iterencode_dict_Cons encode_basestring_ascii_plain [OF k])
  have key: "scanstring [] (k @ CHR 0x22 # CHR '':'' # CHR '' '' # (iterencode lvl v @ T))
             = Inr (k, CHR '':'' # CHR '' '' # (iterencode lvl v @ T))"
    using scanstring_plain [OF k, of "[]"] by simp
  have dl: "delim T" by (simp add: T_def)
  have val: "scan_once (Suc m) (iterencode lvl v @ T) = Inr (v, T)"
    by (rule scan_once_atom [OF v dl])
  show ?case
  proof (cases "kvs = []")
    case True
    then have sT: "skip_ws T = CHR ''}'' # rest"
      by (simp add: T_def skip_ws_newline_indent)
    show ?thesis
      unfolding enc n
      by (simp add: key skip_ws_atom [OF v] val sT kv True)
  next
    case False
    then have sT: "skip_ws T
        = CHR '','' # (newline_indent lvl @ iterencode_dict lvl kvs @ ?end)"
      by (simp add: T_def)
    have "skip_ws (newline_indent lvl @ iterencode_dict lvl kvs @ ?end)
          = skip_ws (CHR 0x22 # (tl (iterencode_dict lvl kvs) @ ?end))"
      using iterencode_dict_hd [OF False, of lvl]
      by (simp only: skip_ws_newline_indent) (metis append_Cons)
    then have next_key: "skip_ws (newline_indent lvl @ iterencode_dict lvl kvs @ ?end)
                    = CHR 0x22 # (tl (iterencode_dict lvl kvs) @ ?end)"
      by simp
    have ih: "JSONObject (Suc m) (pairs @ [(k, v)]) (tl (iterencode_dict lvl kvs) @ ?end)
              = Inr (PDict (dict_of_pairs ((pairs @ [(k, v)]) @ kvs)), rest)"
      by (rule Cons.IH [OF rest False m])
    show ?thesis
      unfolding enc n
      using ih by (simp add: key skip_ws_atom [OF v] val sT next_key kv)
  qed
qed

lemma dict_set_fresh: "k \<notin> fst ` set d \<Longrightarrow> dict_set k v d = d @ [(k, v)]"
  by (induction d) auto

lemma fold_dict_set_distinct:
  "distinct (map fst (acc @ kvs)) \<Longrightarrow> fold (\<lambda>(k, v) d. dict_set k v d) kvs acc = acc @ kvs"
proof (induction kvs arbitrary: acc)
  case Nil
  show ?case by simp
next
  case (Cons kv kvs)
  obtain k v where kv: "kv = (k, v)" by (cases kv)
  from Cons.prems have fresh: "k \<notin> fst ` set acc" and d: "distinct (map fst ((acc @ [(k, v)]) @ kvs))"
    by (auto simp add: kv)
  show ?case
    using Cons.IH [OF d] by (simp add: kv dict_set_fresh [OF fresh])
qed

lemma dict_of_pairs_distinct: "distinct (map fst kvs) \<Longrightarrow> dict_of_pairs kvs = kvs"
  using fold_dict_set_distinct [of "[]" kvs] by (simp add: dict_of_pairs_def)

lemma scan_once_record:
  assumes "flat_record r" and "length (case r of PDict kvs \<Rightarrow> kvs | _ \<Rightarrow> []) + 1 < n"
  shows "scan_once n (iterencode lvl r @ rest) = Inr (r, rest)"
proof -
  from assms(1) obtain kvs where r: "r = PDict kvs" and ne: "kvs \<noteq> []"
    and dist: "distinct (map fst kvs)" and flat: "list_all flat_pair kvs"
    by (cases r) auto
  from assms(2) obtain m where n: "n = Suc m" and m: "length kvs < m"
    by (cases n) (auto simp add: r)
  obtain kv kvs' where c: "kvs = kv # kvs'" using ne by (cases kvs) auto
  have enc: "iterencode lvl r @ rest
             = CHR ''{'' # (newline_indent (lvl + 1)
                 @ CHR 0x22 # (tl (iterencode_dict (lvl + 1) kvs) @ newline_indent lvl @ CHR ''}'' # rest))"
    using iterencode_dict_hd [OF ne, of "lvl + 1"]
    by (simp add: r c)
  have loop: "JSONObject m [] (tl (iterencode_dict (lvl + 1) kvs) @ newline_indent lvl @ CHR ''}'' # rest)
              = Inr (PDict (dict_of_pairs ([] @ kvs)), rest)"
    by (rule JSONObject_loop [OF flat ne m])
  show ?thesis
    unfolding enc n
    using loop by (simp add: skip_ws_newline_indent dict_of_pairs_distinct [OF dist] r)
qed

definition keys_count :: "pyval \<Rightarrow> nat" where
  "keys_count r = length (case r of PDict kvs \<Rightarrow> kvs | _ \<Rightarrow> [])"

lemma iterencode_list_Cons:
  "iterencode_list lvl (r # rs) =
     iterencode lvl r
     @ (if rs = [] then [] else '','' @ newline_indent lvl @ iterencode_list lvl rs)"
  by (cases rs) simp_all

lemma iterencode_record_hd:
  "flat_record r \<Longrightarrow> iterencode lvl r = CHR ''{'' # tl (iterencode lvl r)"
proof (cases r)
  case (PDict kvs)
  assume "flat_record r"
  with PDict show ?thesis by (cases kvs) simp_all
qed simp_all

lemma iterencode_list_hd:
  "list_all flat_record rs \<Longrightarrow> rs \<noteq> [] \<Longrightarrow>
   iterencode_list lvl rs = CHR ''{'' # tl (iterencode_list lvl rs)"
proof (cases rs)
  case (Cons r rs')
  assume "list_all flat_record rs"
  with Cons have "flat_record r" by simp
  from iterencode_record_hd [OF this, of lvl] show ?thesis
    by (simp add: Cons iterencode_list_Cons) (metis append_Cons list.sel(3))
qed simp

lemma JSONArray_loop:
  assumes "list_all flat_record rs" and "rs \<noteq> []"
    and "\<forall>r \<in> set rs. keys_count r + 2 \<le> B" and "length rs + B \<le> n"
  shows "JSONArray n vals (iterencode_list lvl rs @ newline_indent l' @ CHR '']'' # rest)
         = Inr (PList (vals @ rs), rest)"
  using assms
proof (induction rs arbitrary: vals n)
  case Nil
  then show ?case by simp
next
  case (Cons r rs)
  from Cons.prems(1) have r: "flat_record r" and flat: "list_all flat_record rs" by simp_all
  from Cons.prems(3) have kr: "keys_count r + 2 \<le> B" and ks: "\<forall>r \<in> set rs. keys_count r + 2 \<le> B"
    by simp_all
  from Cons.prems(4) obtain m where n: "n = Suc m" and m: "length rs + B \<le> m"
    by (cases n) auto
  let ?end = "newline_indent l' @ CHR '']'' # rest"
  define T where
    "T = (if rs = [] then [] else '','' @ newline_indent lvl @ iterencode_list lvl rs) @ ?end"
  have enc: "iterencode_list lvl (r # rs) @ ?end = iterencode lvl r @ T"
    by (simp add: T_def iterencode_list_Cons)
  have "length (case r of PDict kvs \<Rightarrow> kvs | _ \<Rightarrow> []) + 1 < m"
    using kr m by (simp add: keys_count_def)
  then have val: "scan_once m (iterencode lvl r @ T) = Inr (r, T)"
    by (rule scan_once_record [OF r])
  show ?case
  proof (cases "rs = []")
    case True
    then have sT: "skip_ws T = CHR '']'' # rest"
      by (simp add: T_def skip_ws_newline_indent)
    show ?thesis
      unfolding enc n by (simp add: val sT True)
  next
    case False
    then have sT: "skip_ws T = CHR '','' # (newline_indent lvl @ iterencode_list lvl rs @ ?end)"
      by (simp add: T_def)
    have "skip_ws (newline_indent lvl @ iterencode_list lvl rs @ ?end)
          = skip_ws (CHR ''{'' # (tl (iterencode_list lvl rs) @ ?end))"
      using iterencode_list_hd [OF flat False, of lvl]
      by (simp only: skip_ws_newline_indent) (metis append_Cons)
    also have "\<dots> = CHR ''{'' # (tl (iterencode_list lvl rs) @ ?end)" by simp
    also have "\<dots> = iterencode_list lvl rs @ ?end"
      using iterencode_list_hd [OF flat False, of lvl] by (metis append_Cons)
    finally have nxt: "skip_ws (newline_indent lvl @ iterencode_list lvl rs @ ?end)
          = iterencode_list lvl rs @ ?end" .
    have ih: "JSONArray m (vals @ [r]) (iterencode_list lvl rs @ ?end)
              = Inr (PList ((vals @ [r]) @ rs), rest)"
      by (rule Cons.IH [OF flat False ks m])
    show ?thesis
      unfolding enc n using ih by (simp add: val sT nxt)
  qed
qed

lemma length_iterencode_dict: "length kvs \<le> length (iterencode_dict lvl kvs)"
proof (induction kvs)
  case Nil
  show ?case by simp
next
  case (Cons kv kvs)
  obtain k v where kv: "kv = (k, v)" by (cases kv)
  from Cons.IH show ?case
    by (simp add: kv iterencode_dict_Cons encode_basestring_ascii_def)
qed

lemma length_iterencode_record:
  "flat_record r \<Longrightarrow> keys_count r + 2 \<le> length (iterencode lvl r)"
proof (cases r)
  case (PDict kvs)
  assume "flat_record r"
  with PDict obtain kv kvs' where c: "kvs = kv # kvs'" by (cases kvs) auto
  from length_iterencode_dict [of kvs "lvl + 1"] show ?thesis
    by (simp add: PDict c keys_count_def)
qed simp_all

lemma length_iterencode_list_twice:
  "list_all flat_record rs \<Longrightarrow> 2 * length rs \<le> length (iterencode_list lvl rs)"
proof (induction rs)
  case Nil
  show ?case by simp
next
  case (Cons r rs)
  then have r: "flat_record r" and ih: "2 * length rs \<le> length (iterencode_list lvl rs)"
    by simp_all
  from length_iterencode_record [OF r, of lvl] ih show ?case
    by (simp add: iterencode_list_Cons)
qed

lemma length_iterencode_list:
  "list_all flat_record rs \<Longrightarrow> r \<in> set rs \<Longrightarrow>
   2 * length rs + keys_count r \<le> length (iterencode_list lvl rs)"
proof (induction rs)
  case Nil
  then show ?case by simp
next
  case (Cons x rs)
  from Cons.prems(1) have x: "flat_record x" and flat: "list_all flat_record rs" by simp_all
  note lx = length_iterencode_record [OF x, of lvl]
  show ?case
  proof (cases "r = x")
    case True
    with lx length_iterencode_list_twice [OF flat, of lvl] show ?thesis
      by (simp add: iterencode_list_Cons)
  next
    case False
    with Cons.prems(2) have mem: "r \<in> set rs" by simp
    then have "rs \<noteq> []" by auto
    with lx Cons.IH [OF flat mem] show ?thesis
      by (simp add: iterencode_list_Cons)
  qed
qed

lemma json_loads_dumps_records:
  assumes "list_all flat_record rs"
  shows "json_loads (json_dumps (PList rs)) = Inr (PList rs)"
proof (cases "rs = []")
  case True
  then show ?thesis by (simp add: json_loads_def json_dumps_def)
next
  case False
  then obtain x xs where c: "rs = x # xs" by (cases rs) auto
  let ?L = "iterencode_list (Suc 0) rs"
  let ?end = "newline_indent 0 @ CHR '']'' # []"
  define B where "B = length ?L - 2 * length rs + 2"
  have twice: "2 * length rs \<le> length ?L"
    by (rule length_iterencode_list_twice [OF assms])
  have ks: "\<forall>r \<in> set rs. keys_count r + 2 \<le> B"
  proof
    fix r assume "r \<in> set rs"
    from length_iterencode_list [OF assms this, of "Suc 0"] show "keys_count r + 2 \<le> B"
      by (simp add: B_def)
  qed
  have s: "json_dumps (PList rs) = CHR ''['' # (newline_indent (Suc 0) @ ?L @ ?end)"
    by (simp add: json_dumps_def c)
  have len: "length rs + B \<le> length (json_dumps (PList rs))"
    using twice by (simp add: s B_def newline_indent_def)
  have loop: "JSONArray (length (json_dumps (PList rs))) [] (?L @ ?end) = Inr (PList ([] @ rs), [])"
    by (rule JSONArray_loop [OF assms False ks len])
  have hd: "?L @ ?end = CHR ''{'' # (tl ?L @ ?end)"
    using iterencode_list_hd [OF assms False, of "Suc 0"] by (metis append_Cons)
  have "scan_once (Suc (length (json_dumps (PList rs)))) (skip_ws (json_dumps (PList rs)))
        = Inr (PList rs, [])"
    using loop unfolding s hd
    by (simp add: skip_ws_newline_indent)
  then show ?thesis
    by (simp add: json_loads_def)
qed

lemma plain_individuals:
  "list_all (\<lambda>ind. list_all plain (name ind) \<and> list_all plain (color ind)) individuals"
  by (simp add: individuals_def plain_def)

lemma plain_week_labels: "list_all (list_all plain) week_labels"
  by (simp add: week_labels_def plain_def)

lemma plain_week_isodates: "list_all (list_all plain) week_isodates"
  by (simp add: week_isodates_def plain_def)

lemma plain_keys:
  "list_all plain ''individual''" "list_all plain ''color''" "list_all plain ''week''"
  "list_all plain ''date''" "list_all plain ''cumulative_points''"
  by (simp_all add: plain_def)

lemma flat_expected_record:
  assumes "ind \<in> set individuals" and "w < 12"
  shows "flat_record (expected_record ind w)"
proof -
  from plain_individuals assms(1) have "list_all plain (name ind)" "list_all plain (color ind)"
    by (simp_all add: list_all_iff)
  moreover from plain_week_labels assms(2) have "list_all plain (week_labels ! w)"
    by (simp add: list_all_length length_week_labels)
  moreover from plain_week_isodates assms(2) have "list_all plain (week_isodates ! w)"
    by (simp add: list_all_length length_week_isodates)
  ultimately show ?thesis
    using plain_keys by (simp add: expected_record_eq [OF assms(2)] flat_pair_def)
qed

lemma flat_synthesized: "list_all flat_record synthesized"
  unfolding synthesized_def list_all_iff
  by (auto simp add: flat_expected_record simp del: upt_Suc)

text \<open>
  Claim C4. The exporter, given the synthesized records and a path it can write, stores
  at that path the text that \<^verbatim>\<open>json.dump\<close> with two-space indentation produces, and
  parsing that text gives back the list of the same records: the same keys and values in
  the same order.
\<close>

theorem json_round_trip:
  assumes "generate_sample_data = Inr data" and "can_write w path"
  shows "\<exists>js. save_data_as_json data path w
                  = (Inr (), print (''Data saved to: '' @ path)
                               (w\<lparr>nodes := (nodes w)(path \<mapsto> File (Text js))\<rparr>))
           \<and> js = json_dumps (PList data)
           \<and> json_loads js = Inr (PList data)"
proof -
  from assms(1) have data: "data = synthesized"
    by (simp add: generate_sample_data_synthesized)
  have "json_loads (json_dumps (PList data)) = Inr (PList data)"
    unfolding data by (rule json_loads_dumps_records [OF flat_synthesized])
  moreover have "save_data_as_json data path w
      = (Inr (), print (''Data saved to: '' @ path)
                   (w\<lparr>nodes := (nodes w)(path \<mapsto> File (Text (json_dumps (PList data))))\<rparr>))"
    by (simp add: save_data_as_json_def write_file_ok [OF assms(2)])
  ultimately show ?thesis by blast
qed

theorem json_round_trip_witness:
  "\<exists>data js. generate_sample_data = Inr data
     \<and> nodes (snd (save_data_as_json data data_path (world_of [(output_dir, Dir)]))) data_path
         = Some (File (Text js))
     \<and> json_loads js = Inr (PList data)
     \<and> length data = 60"
proof -
  note ne = paths_distinct paths_distinct [symmetric]
  have cw: "can_write (world_of [(output_dir, Dir)]) data_path"
    by (rule can_write_data_path) (simp_all add: world_of_def ne)
  from json_round_trip [OF generate_sample_data_synthesized cw]
  obtain js where
    "save_data_as_json synthesized data_path (world_of [(output_dir, Dir)])
       = (Inr (), print (''Data saved to: '' @ data_path)
            ((world_of [(output_dir, Dir)])
               \<lparr>nodes := (nodes (world_of [(output_dir, Dir)]))(data_path \<mapsto> File (Text js))\<rparr>))"
    and "json_loads js = Inr (PList synthesized)"
    by blast
  then show ?thesis
    using generate_sample_data_synthesized length_synthesized by auto
qed

end
